theory Spec2Isabelle
  imports Main
begin

section \<open>The run ledger of the speedrun worker (src/index.ts)\<close>

text \<open>
  The worker keeps five tables in a relational store and answers HTTP requests by
  running a few SQL statements each. The tables are modelled as lists of rows in
  insertion order, the statements as list operations. Timestamps are the integer
  milliseconds of \<^verbatim>\<open>Date.now()\<close> (the columns are \<^verbatim>\<open>INTEGER\<close>), so JavaScript numbers
  are modelled as \<^typ>\<open>int\<close>. Every reading of the clock is a parameter of the operation
  that reads it. A statement against the store fails only when the schema refuses it:
  of the statements modelled here that is the insertion into \<^verbatim>\<open>time_logs\<close>, whose
  \<^verbatim>\<open>run_id\<close> is declared \<^verbatim>\<open>FOREIGN KEY (run_id) REFERENCES runs(id)\<close>. The other
  exception is the \<^verbatim>\<open>Run not found\<close> that \<^verbatim>\<open>calculateStats\<close> throws. A handler catches
  both and answers 500; statements already run are not undone.
\<close>

subsection \<open>Tables\<close>

record run_row =
  r_id :: string
  r_type :: string
  r_seed :: string
  r_goal :: string
  r_target_mob :: "string option"
  r_hardcore :: bool
  r_set_seed :: bool
  r_status :: string
  r_created_at :: int
  r_ended_at :: "int option"
  r_duration :: "int option"
  r_completion_details :: "string option"

record player_row =
  p_run_id :: string
  minecraft_name :: string
  role :: string

record time_log =
  tl_run_id :: string
  action :: string
  timestamp :: int

record cheat_log =
  cl_run_id :: string
  player_name :: string
  details :: string
  cl_timestamp :: int

record solved_seed =
  seed :: string
  solved_at :: int

record db =
  runs :: "run_row list"
  players :: "player_row list"
  time_logs :: "time_log list"
  cheat_logs :: "cheat_log list"
  solved_seeds :: "solved_seed list"

subsection \<open>formatDuration\<close>

text \<open>
  \<^verbatim>\<open>Math.floor((ms / unit) % m)\<close> on an integer \<open>ms\<close>: the quotient is a real number and
  JavaScript's \<^verbatim>\<open>%\<close> keeps the sign of the dividend, so for a negative \<open>ms\<close> the floor
  rounds the (negative) remainder away from zero. The totals are integers far below
  \<open>2^53\<close>, where the rounding of the floating-point quotient does not move it across
  an integer, so the floors are those of the exact quotient.
\<close>

definition floor_rem :: "int \<Rightarrow> int \<Rightarrow> int \<Rightarrow> int" where
  "floor_rem ms unit m =
     (if 0 \<le> ms then (ms div unit) mod m
      else - (((- ms) mod (unit * m) + unit - 1) div unit))"

definition digit_char :: "nat \<Rightarrow> char" where
  "digit_char d = ''0123456789'' ! d"

fun show_nat :: "nat \<Rightarrow> string" where
  "show_nat n =
     (if n < 10 then [digit_char n] else show_nat (n div 10) @ [digit_char (n mod 10)])"

declare show_nat.simps [simp del]

text \<open>The decimal text a template literal inserts for an integer-valued number.\<close>

definition show_int :: "int \<Rightarrow> string" where
  "show_int i = (if i < 0 then CHR ''-'' # show_nat (nat (- i)) else show_nat (nat i))"

text \<open>
  \<^verbatim>\<open>
  function formatDuration(ms: number): string {
      const seconds = Math.floor((ms / 1000) % 60);
      const minutes = Math.floor((ms / (1000 * 60)) % 60);
      const hours = Math.floor((ms / (1000 * 60 * 60)));
      return `${hours}h ${minutes}m ${seconds} s`;
  }
  \<close>
\<close>

definition formatDuration :: "int \<Rightarrow> string" where
  "formatDuration ms =
     (let seconds = floor_rem ms 1000 60;
          minutes = floor_rem ms (1000 * 60) 60;
          hours = ms div (1000 * 60 * 60)
      in show_int hours @ ''h '' @ show_int minutes @ ''m '' @ show_int seconds @ '' s'')"

text \<open>
  The first version of the worker (without the remote-control routes) has the same
  function with the template \<^verbatim>\<open>`${hours}h ${minutes}m ${seconds}s`\<close>.
\<close>

definition formatDuration_v1 :: "int \<Rightarrow> string" where
  "formatDuration_v1 ms =
     (let seconds = floor_rem ms 1000 60;
          minutes = floor_rem ms (1000 * 60) 60;
          hours = ms div (1000 * 60 * 60)
      in show_int hours @ ''h '' @ show_int minutes @ ''m '' @ show_int seconds @ ''s'')"

subsection \<open>calculateStats\<close>

text \<open>The three variables of the accounting loop.\<close>

record clock =
  totalTimeMs :: int
  lastStartTime :: int
  isRunning :: bool

text \<open>
  One iteration of
  \<^verbatim>\<open>
  for (const log of timeLogs.results) {
      if (log.action === 'START' || log.action === 'RESUME') {
          if (!isRunning) { lastStartTime = log.timestamp; isRunning = true; }
      } else if (log.action === 'PAUSE' || log.action === 'END') {
          if (isRunning) { totalTimeMs += (log.timestamp - lastStartTime); isRunning = false; }
      }
  }
  \<close>
\<close>

definition clock_step :: "clock \<Rightarrow> time_log \<Rightarrow> clock" where
  "clock_step c log =
     (if action log = ''START'' \<or> action log = ''RESUME'' then
        (if \<not> isRunning c then c\<lparr>lastStartTime := timestamp log, isRunning := True\<rparr> else c)
      else if action log = ''PAUSE'' \<or> action log = ''END'' then
        (if isRunning c
         then c\<lparr>totalTimeMs := totalTimeMs c + (timestamp log - lastStartTime c),
                isRunning := False\<rparr>
         else c)
      else c)"

definition clock0 :: clock where
  "clock0 = \<lparr>totalTimeMs = 0, lastStartTime = 0, isRunning = False\<rparr>"

definition replay :: "time_log list \<Rightarrow> clock" where
  "replay logs = foldl clock_step clock0 logs"

text \<open>
  The loop followed by
  \<^verbatim>\<open>if (isRunning) { totalTimeMs += (Date.now() - lastStartTime); }\<close>.
\<close>

definition total_time :: "time_log list \<Rightarrow> int \<Rightarrow> int" where
  "total_time logs now =
     (let c = replay logs
      in if isRunning c then totalTimeMs c + (now - lastStartTime c) else totalTimeMs c)"

text \<open>
  \<^verbatim>\<open>SELECT action, timestamp FROM time_logs WHERE run_id = ? ORDER BY timestamp ASC\<close>:
  rows with equal timestamps are returned in insertion order.
\<close>

definition select_time_logs :: "db \<Rightarrow> string \<Rightarrow> time_log list" where
  "select_time_logs d runId =
     sort_key timestamp (filter (\<lambda>l. tl_run_id l = runId) (time_logs d))"

definition select_run :: "db \<Rightarrow> string \<Rightarrow> run_row option" where
  "select_run d runId = find (\<lambda>r. r_id r = runId) (runs d)"

datatype ledger_error = RunNotFound | ForeignKeyViolation

record stats =
  st_run_id :: string
  st_type :: string
  st_seed :: string
  st_goal :: string
  st_target_mob :: "string option"
  st_hardcore :: bool
  st_set_seed :: bool
  st_completion_details :: "string option"
  duration_ms :: int
  duration_formatted :: string
  st_players :: "string list"
  cheat_incidents :: nat
  st_solved_at :: "int option"

definition calculateStats :: "db \<Rightarrow> string \<Rightarrow> int \<Rightarrow> ledger_error + stats" where
  "calculateStats d runId now =
     (case select_run d runId of
        None \<Rightarrow> Inl RunNotFound
      | Some run \<Rightarrow>
          (let ps = filter (\<lambda>p. p_run_id p = runId \<and> role p = ''RUNNER'') (players d);
               timeLogs = select_time_logs d runId;
               total = total_time timeLogs now;
               cheatCount = length (filter (\<lambda>c. cl_run_id c = runId) (cheat_logs d))
           in Inr \<lparr>st_run_id = r_id run, st_type = r_type run, st_seed = r_seed run,
                   st_goal = r_goal run, st_target_mob = r_target_mob run,
                   st_hardcore = r_hardcore run, st_set_seed = r_set_seed run,
                   st_completion_details = r_completion_details run,
                   duration_ms = total, duration_formatted = formatDuration total,
                   st_players = map minecraft_name ps, cheat_incidents = cheatCount,
                   st_solved_at = r_ended_at run\<rparr>))"

subsection \<open>The update-state and finish routes\<close>

datatype 'a response = Ok200 'a | BadRequest string | ServerError string

text \<open>
  The switch of \<^verbatim>\<open>POST /api/run/update-state\<close>:
  \<^verbatim>\<open>
  switch (action) {
      case 'START': case 'RESUME': newStatus = 'RUNNING'; break;
      case 'PAUSE': newStatus = 'PAUSED'; break;
      case 'ABORT': newStatus = 'ABORTED'; break;
      case 'FAIL': newStatus = 'FAILED'; break;
      default: return c.json({ error: 'Invalid action' }, 400);
  }
  \<close>
\<close>

definition new_status :: "string \<Rightarrow> string option" where
  "new_status act =
     (if act = ''START'' \<or> act = ''RESUME'' then Some ''RUNNING''
      else if act = ''PAUSE'' then Some ''PAUSED''
      else if act = ''ABORT'' then Some ''ABORTED''
      else if act = ''FAIL'' then Some ''FAILED''
      else None)"

text \<open>\<^verbatim>\<open>UPDATE runs SET ... WHERE id = ?\<close> with the assignment \<open>f\<close>.\<close>

definition update_run :: "string \<Rightarrow> (run_row \<Rightarrow> run_row) \<Rightarrow> db \<Rightarrow> db" where
  "update_run runId f d = d\<lparr>runs := map (\<lambda>r. if r_id r = runId then f r else r) (runs d)\<rparr>"

text \<open>
  \<^verbatim>\<open>INSERT INTO time_logs (run_id, action, timestamp) VALUES (?, ?, ?)\<close>: the row is
  appended when a run with this id exists; otherwise the foreign key refuses the
  statement and the table stays as it is.
\<close>

definition append_time_log :: "string \<Rightarrow> string \<Rightarrow> int \<Rightarrow> db \<Rightarrow> db" where
  "append_time_log runId act now d =
     d\<lparr>time_logs := time_logs d @ [\<lparr>tl_run_id = runId, action = act, timestamp = now\<rparr>]\<rparr>"

definition insert_time_log :: "string \<Rightarrow> string \<Rightarrow> int \<Rightarrow> db \<Rightarrow> ledger_error + db" where
  "insert_time_log runId act now d =
     (case select_run d runId of
        None \<Rightarrow> Inl ForeignKeyViolation
      | Some run \<Rightarrow> Inr (append_time_log runId act now d))"

text \<open>
  The handler: the request's two fields must be non-empty, the action must be one of
  the switch; then the status is written and the raw action logged. Both statements
  run inside a \<^verbatim>\<open>try\<close> whose \<^verbatim>\<open>catch\<close> answers 500 (\<^verbatim>\<open>Failed to update state\<close>).
\<close>

definition update_state :: "db \<Rightarrow> string \<Rightarrow> string \<Rightarrow> int \<Rightarrow> string response \<times> db" where
  "update_state d run_id act now =
     (if run_id = [] \<or> act = [] then (BadRequest ''Missing required fields'', d)
      else case new_status act of
             None \<Rightarrow> (BadRequest ''Invalid action'', d)
           | Some newStatus \<Rightarrow>
               (let d1 = update_run run_id (\<lambda>r. r\<lparr>r_status := newStatus\<rparr>) d
                in case insert_time_log run_id act now d1 of
                     Inl e \<Rightarrow> (ServerError ''Failed to update state'', d1)
                   | Inr d2 \<Rightarrow> (Ok200 newStatus, d2)))"

text \<open>\<^verbatim>\<open>INSERT OR IGNORE INTO solved_seeds (seed, solved_at) VALUES (?, ?)\<close>\<close>

definition insert_or_ignore_solved :: "string \<Rightarrow> int \<Rightarrow> db \<Rightarrow> db" where
  "insert_or_ignore_solved s now d =
     (if s \<in> seed ` set (solved_seeds d) then d
      else d\<lparr>solved_seeds := solved_seeds d @ [\<lparr>seed = s, solved_at = now\<rparr>]\<rparr>)"

text \<open>
  \<^verbatim>\<open>POST /api/run/finish\<close>. \<open>now\<close> is the handler's reading of the clock, \<open>now'\<close> the
  later reading inside \<^verbatim>\<open>calculateStats\<close>. \<^verbatim>\<open>completion_details || null\<close> stores no
  text for a missing or empty one. When the insertion is refused or \<^verbatim>\<open>calculateStats\<close>
  throws, the handler answers 500 and the statements already run are not undone.
\<close>

definition finish ::
  "db \<Rightarrow> string \<Rightarrow> string option \<Rightarrow> int \<Rightarrow> int \<Rightarrow> stats response \<times> db" where
  "finish d run_id completion_details now now' =
     (let d1 = update_run run_id
                 (\<lambda>r. r\<lparr>r_status := ''FINISHED'', r_ended_at := Some now,
                         r_completion_details :=
                           (if completion_details = Some [] then None else completion_details)\<rparr>) d
      in case insert_time_log run_id ''END'' now d1 of
           Inl e \<Rightarrow> (ServerError ''Failed to finish run'', d1)
         | Inr d2 \<Rightarrow>
             (let d3 = (case select_run d2 run_id of
                          None \<Rightarrow> d2
                        | Some run \<Rightarrow> insert_or_ignore_solved (r_seed run) now d2)
              in case calculateStats d3 run_id now' of
                   Inl e \<Rightarrow> (ServerError ''Failed to finish run'', d3)
                 | Inr st \<Rightarrow>
                     (Ok200 st,
                      update_run run_id (\<lambda>r. r\<lparr>r_duration := Some (duration_ms st)\<rparr>) d3)))"

text \<open>A request to the finish route, and a sequence of them run one after the other.\<close>

record finish_request =
  f_run_id :: string
  f_completion_details :: "string option"
  f_now :: int
  f_now' :: int

definition finish_step :: "db \<Rightarrow> finish_request \<Rightarrow> db" where
  "finish_step d q = snd (finish d (f_run_id q) (f_completion_details q) (f_now q) (f_now' q))"

definition finish_all :: "db \<Rightarrow> finish_request list \<Rightarrow> db" where
  "finish_all d qs = foldl finish_step d qs"

section \<open>The reset and reseed orchestrations\<close>

text \<open>
  Both routes hand a background task to \<^verbatim>\<open>executionCtx.waitUntil\<close> and answer 202 at
  once. The task talks to the hosting API through \<^verbatim>\<open>ExarotonClient\<close>, whose every
  method is one HTTP request that throws when the reply is not a success. The remote
  side is a parameter of the model: for the \<open>n\<close>-th step of a task it says whether the
  request fails, which status code a status reply carries and which text a file reply
  carries. A task is modelled by the trace of the requests it issues and the pauses it
  takes, each request with what came back.
\<close>

record remote =
  fails :: "nat \<Rightarrow> bool"
  status_at :: "nat \<Rightarrow> int"
  content_at :: "nat \<Rightarrow> string"

datatype request =
    StopServer
  | GetServerStatus
  | StartServer
  | RestartServer
  | DeleteFile string
  | GetFileContent string
  | UploadFile string string

datatype outcome = Failed | Replied | Status int | Content string

datatype event = Call request outcome | Sleep nat

type_synonym trace = "event list"

datatype remote_error = ApiError

text \<open>A request whose reply carries nothing the task reads.\<close>

definition call :: "remote \<Rightarrow> request \<Rightarrow> trace \<Rightarrow> (remote_error + unit) \<times> trace" where
  "call env rq tr =
     (if fails env (length tr) then (Inl ApiError, tr @ [Call rq Failed])
      else (Inr (), tr @ [Call rq Replied]))"

definition stopServer :: "remote \<Rightarrow> trace \<Rightarrow> (remote_error + unit) \<times> trace" where
  "stopServer env tr = call env StopServer tr"

definition startServer :: "remote \<Rightarrow> trace \<Rightarrow> (remote_error + unit) \<times> trace" where
  "startServer env tr = call env StartServer tr"

definition restartServer :: "remote \<Rightarrow> trace \<Rightarrow> (remote_error + unit) \<times> trace" where
  "restartServer env tr = call env RestartServer tr"

definition deleteFile :: "remote \<Rightarrow> string \<Rightarrow> trace \<Rightarrow> (remote_error + unit) \<times> trace" where
  "deleteFile env path tr = call env (DeleteFile path) tr"

definition getServerStatus :: "remote \<Rightarrow> trace \<Rightarrow> (remote_error + int) \<times> trace" where
  "getServerStatus env tr =
     (if fails env (length tr) then (Inl ApiError, tr @ [Call GetServerStatus Failed])
      else (Inr (status_at env (length tr)),
            tr @ [Call GetServerStatus (Status (status_at env (length tr)))]))"

text \<open>
  Modelled from the spec: \<^verbatim>\<open>getFileContent\<close> and \<^verbatim>\<open>uploadFile\<close> are called by the
  restart route, but the client class in the sources does not define them. The spec
  lists them among the client's operations (read a named file's text content,
  overwrite a named file's text content) and says of every operation that it fails
  with a transport error when the remote side answers with a non-success status. So
  they are requests like the others: one that returns the file's text, and one that
  returns nothing.
\<close>

definition getFileContent :: "remote \<Rightarrow> string \<Rightarrow> trace \<Rightarrow> (remote_error + string) \<times> trace" where
  "getFileContent env path tr =
     (if fails env (length tr) then (Inl ApiError, tr @ [Call (GetFileContent path) Failed])
      else (Inr (content_at env (length tr)),
            tr @ [Call (GetFileContent path) (Content (content_at env (length tr)))]))"

definition uploadFile ::
  "remote \<Rightarrow> string \<Rightarrow> string \<Rightarrow> trace \<Rightarrow> (remote_error + unit) \<times> trace" where
  "uploadFile env path content tr = call env (UploadFile path content) tr"

text \<open>
  \<^verbatim>\<open>
  let attempts = 0;
  while (status !== 0 && attempts < 100) { // 0 = OFFLINE
      await new Promise(resolve => setTimeout(resolve, 3000));
      status = await client.getServerStatus();
      attempts++;
  }
  \<close>
\<close>

function wait_offline ::
  "remote \<Rightarrow> int \<Rightarrow> nat \<Rightarrow> trace \<Rightarrow> (remote_error + int) \<times> trace" where
  "wait_offline env status attempts tr =
     (if status \<noteq> 0 \<and> attempts < 100 then
        (case getServerStatus env (tr @ [Sleep 3000]) of
           (Inl e, tr') \<Rightarrow> (Inl e, tr')
         | (Inr status', tr') \<Rightarrow> wait_offline env status' (attempts + 1) tr')
      else (Inr status, tr))"
  by pat_completeness auto
termination
  by (relation "measure (\<lambda>(env, status, attempts, tr). 100 - attempts)") auto

declare wait_offline.simps [simp del]

text \<open>The three deletions, the first failure ending them.\<close>

definition delete_world :: "remote \<Rightarrow> trace \<Rightarrow> (remote_error + unit) \<times> trace" where
  "delete_world env tr =
     (case deleteFile env ''world'' tr of
        (Inl e, tr1) \<Rightarrow> (Inl e, tr1)
      | (Inr _, tr1) \<Rightarrow>
          (case deleteFile env ''world_nether'' tr1 of
             (Inl e, tr2) \<Rightarrow> (Inl e, tr2)
           | (Inr _, tr2) \<Rightarrow> deleteFile env ''world_the_end'' tr2))"

text \<open>
  The background task of \<^verbatim>\<open>POST /api/run/reset\<close>: stop, wait for OFFLINE, delete the
  world inside its own try/catch, start. Any other failure ends the task in the outer
  catch.
\<close>

definition reset_task :: "remote \<Rightarrow> trace" where
  "reset_task env =
     (case stopServer env [] of
        (Inl e, tr) \<Rightarrow> tr
      | (Inr _, tr) \<Rightarrow>
          (case getServerStatus env tr of
             (Inl e, tr) \<Rightarrow> tr
           | (Inr status, tr) \<Rightarrow>
               (case wait_offline env status 0 tr of
                  (Inl e, tr) \<Rightarrow> tr
                | (Inr status, tr) \<Rightarrow>
                    if status \<noteq> 0 then tr
                    else snd (startServer env (snd (delete_world env tr))))))"

text \<open>\<^verbatim>\<open>propsContent.split('\n')\<close> and \<^verbatim>\<open>newLines.join('\n')\<close>.\<close>

fun split_on :: "char \<Rightarrow> string \<Rightarrow> string list" where
  "split_on c [] = [[]]"
| "split_on c (x # xs) =
     (if x = c then [] # split_on c xs
      else (case split_on c xs of
              [] \<Rightarrow> [[x]]
            | l # ls \<Rightarrow> (x # l) # ls))"

fun join :: "string \<Rightarrow> string list \<Rightarrow> string" where
  "join sep [] = []"
| "join sep [l] = l"
| "join sep (l # m # ls) = l @ sep @ join sep (m # ls)"

definition startsWith :: "string \<Rightarrow> string \<Rightarrow> bool" where
  "startsWith line p = (take (length p) line = p)"

text \<open>
  \<^verbatim>\<open>
  const lines = propsContent.split('\n');
  const newLines = lines.map(line => {
      if (line.startsWith('level-seed=')) { return `level-seed=${seed}`; }
      return line;
  });
  if (!lines.some(l => l.startsWith('level-seed='))) { newLines.push(`level-seed=${seed}`); }
  const newContent = newLines.join('\n');
  \<close>
\<close>

definition rewrite_seed :: "string \<Rightarrow> string \<Rightarrow> string" where
  "rewrite_seed propsContent sd =
     (let lines = split_on CHR 0x0A propsContent;
          newLines = map (\<lambda>line. if startsWith line ''level-seed='' then ''level-seed='' @ sd
                                  else line) lines;
          newLines' = (if \<not> list_ex (\<lambda>l. startsWith l ''level-seed='') lines
                       then newLines @ [''level-seed='' @ sd] else newLines)
      in join [CHR 0x0A] newLines')"

text \<open>
  The background task of \<^verbatim>\<open>POST /api/server/restart\<close>. With a seed in the body: stop,
  wait for OFFLINE, rewrite \<^verbatim>\<open>server.properties\<close> (its own try/catch returns from the
  task), delete the world, start. Without one: a single restart request.
\<close>

definition restart_task :: "remote \<Rightarrow> string \<Rightarrow> trace" where
  "restart_task env sd =
     (if sd \<noteq> [] then
        (case stopServer env [] of
           (Inl e, tr) \<Rightarrow> tr
         | (Inr _, tr) \<Rightarrow>
             (case getServerStatus env tr of
                (Inl e, tr) \<Rightarrow> tr
              | (Inr status, tr) \<Rightarrow>
                  (case wait_offline env status 0 tr of
                     (Inl e, tr) \<Rightarrow> tr
                   | (Inr status, tr) \<Rightarrow>
                       if status \<noteq> 0 then tr
                       else
                         (case getFileContent env ''server.properties'' tr of
                            (Inl e, tr) \<Rightarrow> tr
                          | (Inr propsContent, tr) \<Rightarrow>
                              (case uploadFile env ''server.properties''
                                      (rewrite_seed propsContent sd) tr of
                                 (Inl e, tr) \<Rightarrow> tr
                               | (Inr _, tr) \<Rightarrow>
                                   (case delete_world env tr of
                                      (Inl e, tr) \<Rightarrow> tr
                                    | (Inr _, tr) \<Rightarrow> snd (startServer env tr)))))))
      else snd (restartServer env []))"

text \<open>What a trace contains.\<close>

fun is_poll :: "event \<Rightarrow> bool" where
  "is_poll (Call GetServerStatus out) = True"
| "is_poll ev = False"

fun is_delete :: "event \<Rightarrow> bool" where
  "is_delete (Call (DeleteFile path) out) = True"
| "is_delete ev = False"

fun is_start :: "event \<Rightarrow> bool" where
  "is_start (Call StartServer out) = True"
| "is_start ev = False"

fun is_file_access :: "event \<Rightarrow> bool" where
  "is_file_access (Call (GetFileContent path) out) = True"
| "is_file_access (Call (UploadFile path content) out) = True"
| "is_file_access ev = False"

fun is_sleep :: "event \<Rightarrow> bool" where
  "is_sleep (Sleep ms) = True"
| "is_sleep ev = False"

definition offline_seen :: "trace \<Rightarrow> bool" where
  "offline_seen tr = (Call GetServerStatus (Status 0) \<in> set tr)"

section \<open>Vocabulary of the properties\<close>

text \<open>The log of one run made of the pairs START at \<open>s\<close>, PAUSE at \<open>p\<close>, in this order.\<close>

definition start_pause_log :: "string \<Rightarrow> (int \<times> int) list \<Rightarrow> time_log list" where
  "start_pause_log rid pairs =
     concat (map (\<lambda>(s, p). [\<lparr>tl_run_id = rid, action = ''START'', timestamp = s\<rparr>,
                             \<lparr>tl_run_id = rid, action = ''PAUSE'', timestamp = p\<rparr>]) pairs)"

text \<open>The edges of the accounting loop, and the two actions it passes over.\<close>

definition clock_on_edge :: "time_log \<Rightarrow> bool" where
  "clock_on_edge l = (action l = ''START'' \<or> action l = ''RESUME'')"

definition clock_off_edge :: "time_log \<Rightarrow> bool" where
  "clock_off_edge l = (action l = ''PAUSE'' \<or> action l = ''END'')"

definition abort_or_fail :: "time_log \<Rightarrow> bool" where
  "abort_or_fail l = (action l = ''ABORT'' \<or> action l = ''FAIL'')"

text \<open>The five actions the update-state route accepts.\<close>

definition valid_action :: "string \<Rightarrow> bool" where
  "valid_action act =
     (act = ''START'' \<or> act = ''RESUME'' \<or> act = ''PAUSE'' \<or> act = ''ABORT'' \<or> act = ''FAIL'')"

text \<open>
  Both tasks start with the same steps: stop, a first status request, the wait. This
  is the result of these steps (the last status seen, or the failure) and the trace
  so far.
\<close>

definition stop_and_wait :: "remote \<Rightarrow> (remote_error + int) \<times> trace" where
  "stop_and_wait env =
     (case stopServer env [] of
        (Inl e, tr) \<Rightarrow> (Inl e, tr)
      | (Inr _, tr) \<Rightarrow>
          (case getServerStatus env tr of
             (Inl e, tr) \<Rightarrow> (Inl e, tr)
           | (Inr status, tr) \<Rightarrow> wait_offline env status 0 tr))"

fun is_failed_file_access :: "event \<Rightarrow> bool" where
  "is_failed_file_access (Call (GetFileContent path) Failed) = True"
| "is_failed_file_access (Call (UploadFile path content) Failed) = True"
| "is_failed_file_access ev = False"

section \<open>Sample data\<close>

definition sample_run :: "string \<Rightarrow> string \<Rightarrow> run_row" where
  "sample_run rid sd =
     \<lparr>r_id = rid, r_type = ''SOLO'', r_seed = sd, r_goal = ''ENDER_DRAGON'',
      r_target_mob = None, r_hardcore = False, r_set_seed = False, r_status = ''CREATED'',
      r_created_at = 0, r_ended_at = None, r_duration = None, r_completion_details = None\<rparr>"

definition sample_db :: "time_log list \<Rightarrow> db" where
  "sample_db logs =
     \<lparr>runs = [sample_run ''r1'' ''s1'', sample_run ''r2'' ''s1''],
      players = [\<lparr>p_run_id = ''r1'', minecraft_name = ''Steve'', role = ''RUNNER''\<rparr>],
      time_logs = logs, cheat_logs = [], solved_seeds = []\<rparr>"

definition log_row :: "string \<Rightarrow> int \<Rightarrow> time_log" where
  "log_row act t = \<lparr>tl_run_id = ''r1'', action = act, timestamp = t\<rparr>"

text \<open>Two finish requests, for the two sample runs, which share their seed.\<close>

definition sample_finishes :: "finish_request list" where
  "sample_finishes =
     [\<lparr>f_run_id = ''r1'', f_completion_details = None, f_now = 100, f_now' = 101\<rparr>,
      \<lparr>f_run_id = ''r2'', f_completion_details = Some ''dragon'', f_now = 200, f_now' = 201\<rparr>]"

text \<open>
  A run that is started, paused and resumed, then finished at 4000, then sent an ABORT
  at 4500 (and, in the properties below, finished again at 5000).
\<close>

definition sample_logs :: "time_log list" where
  "sample_logs = [log_row ''START'' 0, log_row ''PAUSE'' 1000, log_row ''RESUME'' 1500]"

definition sample_finished :: db where
  "sample_finished = snd (finish (sample_db sample_logs) ''r1'' None 4000 4001)"

definition sample_aborted :: db where
  "sample_aborted = snd (update_state sample_finished ''r1'' ''ABORT'' 4500)"

text \<open>A remote side that answers every request and never reports OFFLINE.\<close>

definition never_offline :: remote where
  "never_offline = \<lparr>fails = (\<lambda>n. False), status_at = (\<lambda>n. 1), content_at = (\<lambda>n. [])\<rparr>"

text \<open>
  A remote side that reports OFFLINE at once and then fails the third request, the
  one that fetches the properties file.
\<close>

definition fetch_fails :: remote where
  "fetch_fails = \<lparr>fails = (\<lambda>n. n = 2), status_at = (\<lambda>n. 0), content_at = (\<lambda>n. [])\<rparr>"

section \<open>Properties\<close>

subsection \<open>Replaying a log\<close>

lemma replay_Nil: "replay [] = clock0"
  by (simp add: replay_def)

lemma replay_snoc: "replay (logs @ [l]) = clock_step (replay logs) l"
  by (simp add: replay_def)

lemma replay_append: "replay (xs @ ys) = foldl clock_step (replay xs) ys"
  by (simp add: replay_def)

text \<open>
  C10. A run that exists and has no time-log row has an elapsed total of exactly 0
  milliseconds, whatever the clock reads: the replay of the empty log ends with the
  clock off, so the term \<open>now - lastStartTime\<close> is not added.
\<close>

theorem calculateStats_no_time_logs:
  assumes "select_run d runId = Some run"
    and "filter (\<lambda>l. tl_run_id l = runId) (time_logs d) = []"
  shows "(\<exists>st. calculateStats d runId now = Inr st \<and> duration_ms st = 0)
    \<and> \<not> isRunning (replay (select_time_logs d runId))"
  using assms
  by (simp add: calculateStats_def select_time_logs_def total_time_def replay_Nil
      clock0_def Let_def)

theorem calculateStats_no_time_logs_witness:
  "select_run (sample_db []) ''r1'' = Some (sample_run ''r1'' ''s1'')
   \<and> filter (\<lambda>l. tl_run_id l = ''r1'') (time_logs (sample_db [])) = []
   \<and> (\<exists>st. calculateStats (sample_db []) ''r1'' 5000 = Inr st \<and> duration_ms st = 0)
   \<and> \<not> isRunning (replay (select_time_logs (sample_db []) ''r1''))"
proof -
  have run: "select_run (sample_db []) ''r1'' = Some (sample_run ''r1'' ''s1'')"
    by (simp add: select_run_def sample_db_def sample_run_def)
  have logs: "filter (\<lambda>l. tl_run_id l = ''r1'') (time_logs (sample_db [])) = []"
    by (simp add: sample_db_def)
  show ?thesis
    using calculateStats_no_time_logs [OF run logs, of 5000] run logs by simp
qed

subsection \<open>The accounting loop\<close>

lemma clock_step_on:
  "action l = ''START'' \<or> action l = ''RESUME'' \<Longrightarrow>
   clock_step c l = (if isRunning c then c else c\<lparr>lastStartTime := timestamp l, isRunning := True\<rparr>)"
  by (auto simp add: clock_step_def)

lemma clock_step_off:
  "action l = ''PAUSE'' \<or> action l = ''END'' \<Longrightarrow>
   clock_step c l =
     (if isRunning c
      then c\<lparr>totalTimeMs := totalTimeMs c + (timestamp l - lastStartTime c), isRunning := False\<rparr>
      else c)"
  by (auto simp add: clock_step_def)

lemma foldl_start_pause:
  "\<not> isRunning c \<Longrightarrow>
   totalTimeMs (foldl clock_step c (start_pause_log rid pairs))
     = totalTimeMs c + (\<Sum>(s, p)\<leftarrow>pairs. p - s)
   \<and> \<not> isRunning (foldl clock_step c (start_pause_log rid pairs))"
proof (induction pairs arbitrary: c)
  case Nil
  then show ?case by (simp add: start_pause_log_def)
next
  case (Cons sp pairs)
  obtain s p where sp: "sp = (s, p)" by (cases sp)
  let ?c' = "c\<lparr>lastStartTime := s, totalTimeMs := totalTimeMs c + (p - s), isRunning := False\<rparr>"
  have step: "foldl clock_step c (start_pause_log rid (sp # pairs))
      = foldl clock_step ?c' (start_pause_log rid pairs)"
    using Cons.prems by (simp add: start_pause_log_def sp clock_step_def)
  have "\<not> isRunning ?c'" by simp
  from Cons.IH [OF this] step show ?case
    by (simp add: sp)
qed

lemma total_time_start_pause:
  "total_time (start_pause_log rid pairs) now = (\<Sum>(s, p)\<leftarrow>pairs. p - s)"
  using foldl_start_pause [of clock0 rid pairs]
  by (simp add: total_time_def replay_def Let_def clock0_def)

lemma sort_key_increasing:
  "sorted_wrt (<) (map timestamp logs) \<Longrightarrow> sort_key timestamp logs = logs"
  by (rule sort_key_id_if_sorted) (simp add: strict_sorted_imp_sorted)

text \<open>
  C1. The loop treats START and RESUME as clock-on edges and PAUSE and END as clock-off
  edges; a clock-on edge while the clock is on and a clock-off edge while it is off
  change nothing. For a run whose log is made of START/PAUSE pairs with strictly
  increasing timestamps, the stats give the sum of \<open>pause - start\<close> over the pairs,
  whatever the clock reads. A RESUME while the clock is on is ignored: the log START at
  0, RESUME at 500, PAUSE at 2000 gives 2000 ms.
\<close>

theorem elapsed_time_accounting:
  assumes run: "select_run d rid = Some run"
    and logs: "filter (\<lambda>l. tl_run_id l = rid) (time_logs d) = start_pause_log rid pairs"
    and incr: "sorted_wrt (<) (map timestamp (start_pause_log rid pairs))"
  shows "(\<exists>st. calculateStats d rid now = Inr st \<and> duration_ms st = (\<Sum>(s, p)\<leftarrow>pairs. p - s))
    \<and> (\<forall>c l. action l = ''START'' \<or> action l = ''RESUME'' \<longrightarrow>
          clock_step c l =
            (if isRunning c then c else c\<lparr>lastStartTime := timestamp l, isRunning := True\<rparr>))
    \<and> (\<forall>c l. action l = ''PAUSE'' \<or> action l = ''END'' \<longrightarrow>
          clock_step c l =
            (if isRunning c
             then c\<lparr>totalTimeMs := totalTimeMs c + (timestamp l - lastStartTime c),
                    isRunning := False\<rparr>
             else c))
    \<and> total_time [log_row ''START'' 0, log_row ''RESUME'' 500, log_row ''PAUSE'' 2000] t = 2000"
proof -
  have sel: "select_time_logs d rid = start_pause_log rid pairs"
    using logs incr by (simp add: select_time_logs_def sort_key_increasing)
  have a: "\<exists>st. calculateStats d rid now = Inr st \<and> duration_ms st = (\<Sum>(s, p)\<leftarrow>pairs. p - s)"
    using run by (simp add: calculateStats_def sel total_time_start_pause Let_def)
  have b: "total_time [log_row ''START'' 0, log_row ''RESUME'' 500, log_row ''PAUSE'' 2000] t = 2000"
    by (simp add: total_time_def replay_def clock0_def clock_step_def log_row_def Let_def)
  show ?thesis
    using a b clock_step_on clock_step_off by blast
qed

theorem elapsed_time_accounting_witness:
  "select_run (sample_db (start_pause_log ''r1'' [(0, 1000), (1500, 4000)])) ''r1''
     = Some (sample_run ''r1'' ''s1'')
   \<and> filter (\<lambda>l. tl_run_id l = ''r1'')
        (time_logs (sample_db (start_pause_log ''r1'' [(0, 1000), (1500, 4000)])))
     = start_pause_log ''r1'' [(0, 1000), (1500, 4000)]
   \<and> sorted_wrt (<) (map timestamp (start_pause_log ''r1'' [(0, 1000), (1500, 4000)]))
   \<and> (\<exists>st. calculateStats (sample_db (start_pause_log ''r1'' [(0, 1000), (1500, 4000)])) ''r1'' 9000
             = Inr st \<and> duration_ms st = 3500)"
proof -
  let ?d = "sample_db (start_pause_log ''r1'' [(0, 1000), (1500, 4000)])"
  have run: "select_run ?d ''r1'' = Some (sample_run ''r1'' ''s1'')"
    by (simp add: select_run_def sample_db_def sample_run_def)
  have logs: "filter (\<lambda>l. tl_run_id l = ''r1'') (time_logs ?d)
      = start_pause_log ''r1'' [(0, 1000), (1500, 4000)]"
    by (simp add: sample_db_def start_pause_log_def)
  have incr: "sorted_wrt (<) (map timestamp (start_pause_log ''r1'' [(0, 1000), (1500, 4000)]))"
    by (simp add: start_pause_log_def)
  have "\<exists>st. calculateStats ?d ''r1'' 9000 = Inr st
      \<and> duration_ms st = (\<Sum>(s, p)\<leftarrow>[(0, 1000), (1500, 4000)]. p - s)"
    using elapsed_time_accounting [OF run logs incr, of 9000] by blast
  then show ?thesis
    using run logs incr by simp
qed

lemma foldl_no_off_edge:
  "isRunning c \<Longrightarrow> list_all (\<lambda>l. \<not> clock_off_edge l) post \<Longrightarrow> foldl clock_step c post = c"
  by (induction post arbitrary: c) (auto simp add: clock_step_def clock_off_edge_def)

lemma foldl_no_on_edge:
  "\<not> isRunning c \<Longrightarrow> list_all (\<lambda>l. \<not> clock_on_edge l) post \<Longrightarrow> foldl clock_step c post = c"
  by (induction post arbitrary: c) (auto simp add: clock_step_def clock_on_edge_def)

lemma replay_ends_on:
  assumes "\<not> isRunning (replay pre)" and "clock_on_edge e"
    and "list_all (\<lambda>l. \<not> clock_off_edge l) post"
  shows "replay (pre @ e # post) = (replay pre)\<lparr>lastStartTime := timestamp e, isRunning := True\<rparr>"
proof -
  have "clock_step (replay pre) e = (replay pre)\<lparr>lastStartTime := timestamp e, isRunning := True\<rparr>"
    using assms(1,2) by (simp add: clock_step_def clock_on_edge_def)
  then show ?thesis
    using assms(3) by (simp add: replay_append foldl_no_off_edge)
qed

text \<open>
  C2. When the replay of a run's log ends with the clock on (the last effective edge
  \<open>e\<close> is a clock-on edge taken while the clock was off, and no PAUSE or END follows
  it), the stats add \<open>now - timestamp e\<close> to the total accumulated before \<open>e\<close>. In
  particular the log START at 0 read at 5000 gives 5000 ms.
\<close>

theorem live_run_adds_time_since_last_on:
  assumes run: "select_run d rid = Some run"
    and logs: "select_time_logs d rid = pre @ e # post"
    and off: "\<not> isRunning (replay pre)"
    and edge: "clock_on_edge e"
    and post: "list_all (\<lambda>l. \<not> clock_off_edge l) post"
  shows "isRunning (replay (select_time_logs d rid))
    \<and> lastStartTime (replay (select_time_logs d rid)) = timestamp e
    \<and> (\<exists>st. calculateStats d rid now = Inr st
          \<and> duration_ms st = totalTimeMs (replay pre) + (now - timestamp e))
    \<and> total_time [log_row ''START'' 0] 5000 = 5000"
proof -
  have r: "replay (select_time_logs d rid)
      = (replay pre)\<lparr>lastStartTime := timestamp e, isRunning := True\<rparr>"
    unfolding logs by (rule replay_ends_on [OF off edge post])
  have ex: "total_time [log_row ''START'' 0] 5000 = 5000"
    by (simp add: total_time_def replay_def clock0_def clock_step_def log_row_def Let_def)
  show ?thesis
    using run ex by (simp add: r calculateStats_def total_time_def Let_def)
qed

theorem live_run_adds_time_since_last_on_witness:
  "select_run (sample_db [log_row ''START'' 0, log_row ''PAUSE'' 1000, log_row ''RESUME'' 3000,
        log_row ''ABORT'' 4000]) ''r1'' = Some (sample_run ''r1'' ''s1'')
   \<and> select_time_logs (sample_db [log_row ''START'' 0, log_row ''PAUSE'' 1000,
        log_row ''RESUME'' 3000, log_row ''ABORT'' 4000]) ''r1''
      = [log_row ''START'' 0, log_row ''PAUSE'' 1000] @ log_row ''RESUME'' 3000 # [log_row ''ABORT'' 4000]
   \<and> \<not> isRunning (replay [log_row ''START'' 0, log_row ''PAUSE'' 1000])
   \<and> clock_on_edge (log_row ''RESUME'' 3000)
   \<and> list_all (\<lambda>l. \<not> clock_off_edge l) [log_row ''ABORT'' 4000]
   \<and> (\<exists>st. calculateStats (sample_db [log_row ''START'' 0, log_row ''PAUSE'' 1000,
        log_row ''RESUME'' 3000, log_row ''ABORT'' 4000]) ''r1'' 5000 = Inr st
        \<and> duration_ms st = 3000)"
proof -
  let ?d = "sample_db [log_row ''START'' 0, log_row ''PAUSE'' 1000, log_row ''RESUME'' 3000,
        log_row ''ABORT'' 4000]"
  have run: "select_run ?d ''r1'' = Some (sample_run ''r1'' ''s1'')"
    by (simp add: select_run_def sample_db_def sample_run_def)
  have logs: "select_time_logs ?d ''r1''
      = [log_row ''START'' 0, log_row ''PAUSE'' 1000] @ log_row ''RESUME'' 3000 # [log_row ''ABORT'' 4000]"
    by (simp add: select_time_logs_def sample_db_def log_row_def)
  have rp: "replay [log_row ''START'' 0, log_row ''PAUSE'' 1000]
      = \<lparr>totalTimeMs = 1000, lastStartTime = 0, isRunning = False\<rparr>"
    by (simp add: replay_def clock0_def clock_step_def log_row_def)
  have off: "\<not> isRunning (replay [log_row ''START'' 0, log_row ''PAUSE'' 1000])"
    by (simp add: rp)
  have edge: "clock_on_edge (log_row ''RESUME'' 3000)"
    by (simp add: clock_on_edge_def log_row_def)
  have post: "list_all (\<lambda>l. \<not> clock_off_edge l) [log_row ''ABORT'' 4000]"
    by (simp add: clock_off_edge_def log_row_def)
  have "\<exists>st. calculateStats ?d ''r1'' 5000 = Inr st
      \<and> duration_ms st = totalTimeMs (replay [log_row ''START'' 0, log_row ''PAUSE'' 1000])
          + (5000 - timestamp (log_row ''RESUME'' 3000))"
    using live_run_adds_time_since_last_on [OF run logs off edge post, of 5000] by blast
  moreover have "timestamp (log_row ''RESUME'' 3000) = 3000"
    by (simp add: log_row_def)
  ultimately have "\<exists>st. calculateStats ?d ''r1'' 5000 = Inr st \<and> duration_ms st = 3000"
    by (simp add: rp)
  then show ?thesis
    using run logs off edge post by blast
qed

lemma clock_step_abort_or_fail: "abort_or_fail l \<Longrightarrow> clock_step c l = c"
  by (auto simp add: clock_step_def abort_or_fail_def)

lemma foldl_drop_abort_or_fail:
  "foldl clock_step c (filter (\<lambda>l. \<not> abort_or_fail l) logs) = foldl clock_step c logs"
  by (induction logs arbitrary: c) (simp_all add: clock_step_abort_or_fail)

lemma select_time_logs_filter:
  "select_time_logs (d\<lparr>time_logs := filter P (time_logs d)\<rparr>) rid
     = filter P (select_time_logs d rid)"
proof -
  have "filter (\<lambda>l. tl_run_id l = rid) (filter P (time_logs d))
      = filter P (filter (\<lambda>l. tl_run_id l = rid) (time_logs d))"
    by (simp add: conj_commute)
  then show ?thesis
    by (simp add: select_time_logs_def filter_sort)
qed

lemma calculateStats_drop_abort_or_fail:
  "calculateStats (d\<lparr>time_logs := filter (\<lambda>l. \<not> abort_or_fail l) (time_logs d)\<rparr>) rid now
     = calculateStats d rid now"
proof -
  have "total_time (filter (\<lambda>l. \<not> abort_or_fail l) (select_time_logs d rid)) now
      = total_time (select_time_logs d rid) now"
    by (simp add: total_time_def replay_def foldl_drop_abort_or_fail)
  then show ?thesis
    by (simp add: calculateStats_def select_time_logs_filter select_run_def Let_def
        split: option.split)
qed

text \<open>
  C3. ABORT and FAIL rows are not clock-off edges. The stats of a run are the same with
  and without them: removing all of them from the table, or inserting one at any
  position, changes nothing in the result. The loop steps over each of them, so a
  clock that is on stays on (and keeps its start time) until a PAUSE or END row.
\<close>

theorem abort_and_fail_do_not_stop_the_clock:
  "calculateStats (d\<lparr>time_logs := filter (\<lambda>l. \<not> abort_or_fail l) (time_logs d)\<rparr>) rid now
     = calculateStats d rid now
   \<and> (abort_or_fail e \<longrightarrow>
        calculateStats (d\<lparr>time_logs := xs @ e # ys\<rparr>) rid now
          = calculateStats (d\<lparr>time_logs := xs @ ys\<rparr>) rid now)
   \<and> (abort_or_fail e \<longrightarrow> clock_step c e = c)
   \<and> (isRunning (clock_step c l) \<and> \<not> isRunning c \<longrightarrow> clock_on_edge l)
   \<and> (\<not> isRunning (clock_step c l) \<and> isRunning c \<longrightarrow> clock_off_edge l)"
proof -
  have ins: "calculateStats (d\<lparr>time_logs := xs @ e # ys\<rparr>) rid now
          = calculateStats (d\<lparr>time_logs := xs @ ys\<rparr>) rid now" if e: "abort_or_fail e"
  proof -
    have "calculateStats (d\<lparr>time_logs := xs @ e # ys\<rparr>) rid now
        = calculateStats (d\<lparr>time_logs := filter (\<lambda>l. \<not> abort_or_fail l) (xs @ e # ys)\<rparr>) rid now"
      using calculateStats_drop_abort_or_fail [of "d\<lparr>time_logs := xs @ e # ys\<rparr>" rid now]
      by simp
    also have "\<dots> = calculateStats (d\<lparr>time_logs := filter (\<lambda>l. \<not> abort_or_fail l) (xs @ ys)\<rparr>) rid now"
      using e by simp
    also have "\<dots> = calculateStats (d\<lparr>time_logs := xs @ ys\<rparr>) rid now"
      using calculateStats_drop_abort_or_fail [of "d\<lparr>time_logs := xs @ ys\<rparr>" rid now]
      by simp
    finally show ?thesis .
  qed
  have on: "clock_on_edge l" if "isRunning (clock_step c l)" "\<not> isRunning c"
    using that by (auto simp add: clock_step_def clock_on_edge_def split: if_splits)
  have off: "clock_off_edge l" if "\<not> isRunning (clock_step c l)" "isRunning c"
    using that by (auto simp add: clock_step_def clock_off_edge_def split: if_splits)
  show ?thesis
    using ins on off by (simp add: calculateStats_drop_abort_or_fail clock_step_abort_or_fail)
qed

theorem abort_and_fail_do_not_stop_the_clock_witness:
  "abort_or_fail (log_row ''ABORT'' 700)
   \<and> calculateStats (sample_db [log_row ''START'' 0, log_row ''ABORT'' 700, log_row ''END'' 900]) ''r1'' 5000
     = calculateStats (sample_db [log_row ''START'' 0, log_row ''END'' 900]) ''r1'' 5000
   \<and> map_sum id duration_ms
       (calculateStats (sample_db [log_row ''START'' 0, log_row ''ABORT'' 700]) ''r1'' 5000) = Inr 5000"
proof -
  have e: "abort_or_fail (log_row ''ABORT'' 700)"
    by (simp add: abort_or_fail_def log_row_def)
  have "calculateStats ((sample_db [])\<lparr>time_logs := [log_row ''START'' 0] @ log_row ''ABORT'' 700 # [log_row ''END'' 900]\<rparr>) ''r1'' 5000
      = calculateStats ((sample_db [])\<lparr>time_logs := [log_row ''START'' 0] @ [log_row ''END'' 900]\<rparr>) ''r1'' 5000"
    using abort_and_fail_do_not_stop_the_clock
      [of "sample_db []" "''r1''" 5000 "log_row ''ABORT'' 700" "[log_row ''START'' 0]" "[log_row ''END'' 900]"] e
    by blast
  then have a: "calculateStats (sample_db [log_row ''START'' 0, log_row ''ABORT'' 700, log_row ''END'' 900]) ''r1'' 5000
     = calculateStats (sample_db [log_row ''START'' 0, log_row ''END'' 900]) ''r1'' 5000"
    by (simp add: sample_db_def)
  have b: "map_sum id duration_ms
       (calculateStats (sample_db [log_row ''START'' 0, log_row ''ABORT'' 700]) ''r1'' 5000) = Inr 5000"
    by (simp add: calculateStats_def select_run_def select_time_logs_def sample_db_def
        sample_run_def log_row_def total_time_def replay_def clock0_def clock_step_def Let_def)
  show ?thesis using e a b by blast
qed

subsection \<open>formatDuration\<close>

lemma floor_rem_nonneg: "0 \<le> ms \<Longrightarrow> floor_rem ms unit m = (ms div unit) mod m"
  by (simp add: floor_rem_def)

lemma formatDuration_nonneg:
  "0 \<le> ms \<Longrightarrow>
   formatDuration ms =
     show_int (ms div 3600000) @ ''h '' @ show_int ((ms div 60000) mod 60) @ ''m ''
       @ show_int ((ms div 1000) mod 60) @ '' s''"
  by (simp add: formatDuration_def floor_rem_nonneg)

lemma formatDuration_v1_nonneg:
  "0 \<le> ms \<Longrightarrow>
   formatDuration_v1 ms =
     show_int (ms div 3600000) @ ''h '' @ show_int ((ms div 60000) mod 60) @ ''m ''
       @ show_int ((ms div 1000) mod 60) @ ''s''"
  by (simp add: formatDuration_v1_def floor_rem_nonneg)

text \<open>
  C4. For a non-negative total the three numbers are the floor-based decomposition
  (\<open>formatDuration_nonneg\<close>), but the text the current function builds ends in
  \<open>'' s''\<close>, with a space before the unit: 3,661,000 ms gives \<open>1h 1m 1 s\<close> and 59,000 ms
  gives \<open>0h 0m 59 s\<close>, not \<open>1h 1m 1s\<close> and \<open>0h 0m 59s\<close>. The first version of the
  function gives the texts without the space.
\<close>

theorem formatDuration_space_before_s:
  "formatDuration 3661000 = ''1h 1m 1 s''
   \<and> formatDuration 59000 = ''0h 0m 59 s''
   \<and> formatDuration 3661000 \<noteq> ''1h 1m 1s''
   \<and> formatDuration 59000 \<noteq> ''0h 0m 59s''
   \<and> formatDuration_v1 3661000 = ''1h 1m 1s''
   \<and> formatDuration_v1 59000 = ''0h 0m 59s''"
  by (simp add: formatDuration_def formatDuration_v1_def floor_rem_def show_int_def
      show_nat.simps digit_char_def)

subsection \<open>Statements against the store\<close>

lemma find_update_runs:
  assumes "\<And>r. r_id (f r) = r_id r"
  shows "find (\<lambda>r. r_id r = x) (map (\<lambda>r. if r_id r = rid then f r else r) rs)
     = map_option (\<lambda>r. if r_id r = rid then f r else r) (find (\<lambda>r. r_id r = x) rs)"
  by (induction rs) (simp_all add: assms)

lemma select_run_update_run:
  assumes "\<And>r. r_id (f r) = r_id r"
  shows "select_run (update_run rid f d) x
     = map_option (\<lambda>r. if r_id r = rid then f r else r) (select_run d x)"
  by (simp add: select_run_def update_run_def find_update_runs [OF assms])

lemma update_run_no_row:
  assumes "select_run d rid = None"
  shows "update_run rid f d = d"
proof -
  from assms have "\<forall>r\<in>set (runs d). r_id r \<noteq> rid"
    by (simp add: select_run_def find_None_iff)
  then have "map (\<lambda>r. if r_id r = rid then f r else r) (runs d) = runs d"
    by (intro map_idI) simp
  then show ?thesis by (simp add: update_run_def)
qed

lemma insert_time_log_Some:
  "select_run d rid = Some run \<Longrightarrow>
   insert_time_log rid act now d = Inr (append_time_log rid act now d)"
  by (simp add: insert_time_log_def)

lemma insert_time_log_None:
  "select_run d rid = None \<Longrightarrow> insert_time_log rid act now d = Inl ForeignKeyViolation"
  by (simp add: insert_time_log_def)

lemma select_run_append_time_log [simp]:
  "select_run (append_time_log rid act now d) x = select_run d x"
  by (simp add: select_run_def append_time_log_def)

lemma select_run_insert_or_ignore_solved [simp]:
  "select_run (insert_or_ignore_solved s now d) x = select_run d x"
  by (simp add: select_run_def insert_or_ignore_solved_def)

lemma select_run_id: "select_run d x = Some r \<Longrightarrow> r_id r = x"
  by (auto simp add: select_run_def find_Some_iff)

lemma time_logs_update_run [simp]: "time_logs (update_run rid f d) = time_logs d"
  by (simp add: update_run_def)

lemma time_logs_insert_or_ignore_solved [simp]:
  "time_logs (insert_or_ignore_solved s now d) = time_logs d"
  by (simp add: insert_or_ignore_solved_def)

lemma solved_seeds_update_run [simp]: "solved_seeds (update_run rid f d) = solved_seeds d"
  by (simp add: update_run_def)

lemma solved_seeds_append_time_log [simp]:
  "solved_seeds (append_time_log rid act now d) = solved_seeds d"
  by (simp add: append_time_log_def)

lemma calculateStats_Inr:
  "select_run d rid = Some run \<Longrightarrow>
   \<exists>st. calculateStats d rid now = Inr st
      \<and> duration_ms st = total_time (select_time_logs d rid) now"
  by (simp add: calculateStats_def Let_def)

lemma calculateStats_Inl:
  "select_run d rid = None \<Longrightarrow> calculateStats d rid now = Inl RunNotFound"
  by (simp add: calculateStats_def)

subsection \<open>The update-state route\<close>

lemma new_status_None: "new_status act = None \<longleftrightarrow> \<not> valid_action act"
  by (simp add: new_status_def valid_action_def)

lemma valid_action_nonempty: "valid_action act \<Longrightarrow> act \<noteq> []"
  by (auto simp add: valid_action_def)

lemma update_state_rejected:
  "\<not> valid_action act \<Longrightarrow> \<exists>msg. update_state d rid act now = (BadRequest msg, d)"
  using new_status_None [of act] by (simp add: update_state_def)

lemma update_state_accepted:
  assumes "valid_action act" and "rid \<noteq> []" and "select_run d rid = Some run"
  shows "\<exists>st. new_status act = Some st
     \<and> update_state d rid act now =
         (Ok200 st,
          d\<lparr>runs := map (\<lambda>r. if r_id r = rid then r\<lparr>r_status := st\<rparr> else r) (runs d),
            time_logs := time_logs d @ [\<lparr>tl_run_id = rid, action = act, timestamp = now\<rparr>]\<rparr>)"
proof -
  from assms(1) obtain st where st: "new_status act = Some st"
    using new_status_None [of act] by (cases "new_status act") auto
  from assms(1) have ne: "act \<noteq> []" by (simp add: valid_action_nonempty)
  let ?d1 = "update_run rid (\<lambda>r. r\<lparr>r_status := st\<rparr>) d"
  have "select_run ?d1 rid
      = map_option (\<lambda>r. if r_id r = rid then r\<lparr>r_status := st\<rparr> else r) (select_run d rid)"
    by (rule select_run_update_run) simp
  with assms(3) obtain run1 where "select_run ?d1 rid = Some run1" by simp
  then have "insert_time_log rid act now ?d1 = Inr (append_time_log rid act now ?d1)"
    by (rule insert_time_log_Some)
  with assms(2) ne st have "update_state d rid act now = (Ok200 st, append_time_log rid act now ?d1)"
    by (simp add: update_state_def)
  with st show ?thesis
    by (simp add: append_time_log_def update_run_def)
qed

lemma update_state_unknown_run:
  assumes "valid_action act" and "rid \<noteq> []" and "select_run d rid = None"
  shows "update_state d rid act now = (ServerError ''Failed to update state'', d)"
proof -
  from assms(1) obtain st where st: "new_status act = Some st"
    using new_status_None [of act] by (cases "new_status act") auto
  from assms(1) have ne: "act \<noteq> []" by (simp add: valid_action_nonempty)
  have d1: "update_run rid (\<lambda>r. r\<lparr>r_status := st\<rparr>) d = d"
    by (rule update_run_no_row [OF assms(3)])
  from assms(2,3) ne st show ?thesis
    by (simp add: update_state_def d1 insert_time_log_None)
qed

lemma update_state_error_keeps_db:
  assumes "update_state d rid act now = (resp, d')" and "\<forall>st. resp \<noteq> Ok200 st"
  shows "d' = d"
proof (cases "valid_action act \<and> rid \<noteq> []")
  case False
  then consider "\<not> valid_action act" | "rid = []" by blast
  then show ?thesis
  proof cases
    case 1
    from update_state_rejected [OF this, of d rid now] assms(1) show ?thesis by auto
  next
    case 2
    with assms(1) show ?thesis by (simp add: update_state_def)
  qed
next
  case True
  show ?thesis
  proof (cases "select_run d rid")
    case None
    with True assms(1) show ?thesis by (simp add: update_state_unknown_run)
  next
    case (Some run)
    from update_state_accepted [OF _ _ Some, of act now] True assms show ?thesis by auto
  qed
qed

lemma update_state_Ok200:
  assumes "fst (update_state d rid act now) = Ok200 st"
  shows "new_status act = Some st
     \<and> snd (update_state d rid act now) =
         d\<lparr>runs := map (\<lambda>r. if r_id r = rid then r\<lparr>r_status := st\<rparr> else r) (runs d),
           time_logs := time_logs d @ [\<lparr>tl_run_id = rid, action = act, timestamp = now\<rparr>]\<rparr>"
proof -
  have v: "valid_action act"
  proof (rule ccontr)
    assume "\<not> valid_action act"
    from update_state_rejected [OF this, of d rid now] assms show False by auto
  qed
  have r: "rid \<noteq> []"
    using assms by (auto simp add: update_state_def)
  obtain run where run: "select_run d rid = Some run"
    using assms update_state_unknown_run [OF v r, of d now] by (cases "select_run d rid") auto
  from update_state_accepted [OF v r run, of now] assms show ?thesis by auto
qed

text \<open>
  C5. The switch maps START and RESUME to RUNNING, PAUSE to PAUSED, ABORT to ABORTED
  and FAIL to FAILED. A call with any other action is answered with a 400 and leaves
  the database as it was, as does every call that is not answered with success: no
  time-log row is added and no status changes. A call that is answered with success
  has set the status of the run and appended one time-log row that carries the action
  as it was sent, not the status; every call with one of the five actions for a run
  that exists is such a call. A call with one of the five actions for a run id that no
  run has is answered with a 500, the insertion being refused, and changes nothing.
\<close>

theorem update_state_contract:
  "new_status ''START'' = Some ''RUNNING'' \<and> new_status ''RESUME'' = Some ''RUNNING''
   \<and> new_status ''PAUSE'' = Some ''PAUSED'' \<and> new_status ''ABORT'' = Some ''ABORTED''
   \<and> new_status ''FAIL'' = Some ''FAILED''
   \<and> (\<not> valid_action act \<longrightarrow> (\<exists>msg. update_state d rid act now = (BadRequest msg, d)))
   \<and> ((\<forall>st. fst (update_state d rid act now) \<noteq> Ok200 st) \<longrightarrow> snd (update_state d rid act now) = d)
   \<and> (fst (update_state d rid act now) = Ok200 st' \<longrightarrow>
        new_status act = Some st'
        \<and> snd (update_state d rid act now) =
            d\<lparr>runs := map (\<lambda>r. if r_id r = rid then r\<lparr>r_status := st'\<rparr> else r) (runs d),
              time_logs := time_logs d @ [\<lparr>tl_run_id = rid, action = act, timestamp = now\<rparr>]\<rparr>)
   \<and> (valid_action act \<and> rid \<noteq> [] \<and> select_run d rid \<noteq> None \<longrightarrow>
        (\<exists>st. new_status act = Some st
           \<and> update_state d rid act now =
               (Ok200 st,
                d\<lparr>runs := map (\<lambda>r. if r_id r = rid then r\<lparr>r_status := st\<rparr> else r) (runs d),
                  time_logs := time_logs d @ [\<lparr>tl_run_id = rid, action = act, timestamp = now\<rparr>]\<rparr>)))
   \<and> (valid_action act \<and> rid \<noteq> [] \<and> select_run d rid = None \<longrightarrow>
        update_state d rid act now = (ServerError ''Failed to update state'', d))"
proof -
  have m: "new_status ''START'' = Some ''RUNNING'' \<and> new_status ''RESUME'' = Some ''RUNNING''
    \<and> new_status ''PAUSE'' = Some ''PAUSED'' \<and> new_status ''ABORT'' = Some ''ABORTED''
    \<and> new_status ''FAIL'' = Some ''FAILED''"
    by (simp add: new_status_def)
  have e: "snd (update_state d rid act now) = d" if "\<forall>st. fst (update_state d rid act now) \<noteq> Ok200 st"
    using update_state_error_keeps_db [of d rid act now "fst (update_state d rid act now)"
        "snd (update_state d rid act now)"] that by simp
  have a: "\<exists>st. new_status act = Some st
           \<and> update_state d rid act now =
               (Ok200 st,
                d\<lparr>runs := map (\<lambda>r. if r_id r = rid then r\<lparr>r_status := st\<rparr> else r) (runs d),
                  time_logs := time_logs d @ [\<lparr>tl_run_id = rid, action = act, timestamp = now\<rparr>]\<rparr>)"
    if "valid_action act" "rid \<noteq> []" "select_run d rid \<noteq> None"
  proof -
    from that(3) obtain run where "select_run d rid = Some run" by auto
    from update_state_accepted [OF that(1,2) this] show ?thesis .
  qed
  show ?thesis
    using m e a update_state_rejected [of act d rid now]
      update_state_Ok200 [of d rid act now st'] update_state_unknown_run [of act rid d now]
    by blast
qed

theorem update_state_contract_witness:
  "\<not> valid_action ''END''
   \<and> update_state (sample_db []) ''r1'' ''END'' 10 = (BadRequest ''Invalid action'', sample_db [])
   \<and> valid_action ''PAUSE''
   \<and> select_run (sample_db []) ''r1'' \<noteq> None
   \<and> time_logs (snd (update_state (sample_db []) ''r1'' ''PAUSE'' 10))
       = [\<lparr>tl_run_id = ''r1'', action = ''PAUSE'', timestamp = 10\<rparr>]
   \<and> map r_status (runs (snd (update_state (sample_db []) ''r1'' ''PAUSE'' 10)))
       = [''PAUSED'', ''CREATED'']
   \<and> select_run (sample_db []) ''r9'' = None
   \<and> update_state (sample_db []) ''r9'' ''PAUSE'' 10
       = (ServerError ''Failed to update state'', sample_db [])"
proof -
  have inv: "\<not> valid_action ''END''" by (simp add: valid_action_def)
  have val: "valid_action ''PAUSE''" by (simp add: valid_action_def)
  have ne: "''r1'' \<noteq> []" and ne9: "''r9'' \<noteq> []" by simp_all
  have ex: "select_run (sample_db []) ''r1'' \<noteq> None"
    by (simp add: select_run_def sample_db_def sample_run_def)
  have un: "select_run (sample_db []) ''r9'' = None"
    by (simp add: select_run_def sample_db_def sample_run_def)
  from update_state_contract [of "''END''" "sample_db []" "''r1''" 10] inv
  obtain msg where rej: "update_state (sample_db []) ''r1'' ''END'' 10 = (BadRequest msg, sample_db [])"
    by blast
  have "fst (update_state (sample_db []) ''r1'' ''END'' 10) = BadRequest ''Invalid action''"
    by (simp add: update_state_def new_status_def)
  with rej have a: "update_state (sample_db []) ''r1'' ''END'' 10 = (BadRequest ''Invalid action'', sample_db [])"
    by simp
  from update_state_contract [of "''PAUSE''" "sample_db []" "''r1''" 10] val ne ex
  obtain st where st: "new_status ''PAUSE'' = Some st"
    and acc: "update_state (sample_db []) ''r1'' ''PAUSE'' 10 =
       (Ok200 st,
        (sample_db [])\<lparr>runs := map (\<lambda>r. if r_id r = ''r1'' then r\<lparr>r_status := st\<rparr> else r) (runs (sample_db [])),
          time_logs := time_logs (sample_db []) @ [\<lparr>tl_run_id = ''r1'', action = ''PAUSE'', timestamp = 10\<rparr>]\<rparr>)"
    by blast
  from st have "st = ''PAUSED''" by (simp add: new_status_def)
  with acc have b: "time_logs (snd (update_state (sample_db []) ''r1'' ''PAUSE'' 10))
       = [\<lparr>tl_run_id = ''r1'', action = ''PAUSE'', timestamp = 10\<rparr>]"
    and c: "map r_status (runs (snd (update_state (sample_db []) ''r1'' ''PAUSE'' 10)))
       = [''PAUSED'', ''CREATED'']"
    by (simp_all add: sample_db_def sample_run_def)
  from update_state_contract [of "''PAUSE''" "sample_db []" "''r9''" 10] val ne9 un
  have f: "update_state (sample_db []) ''r9'' ''PAUSE'' 10
       = (ServerError ''Failed to update state'', sample_db [])"
    by blast
  show ?thesis using inv a val ex b c un f by simp
qed

subsection \<open>The finish route\<close>

text \<open>The state after the first three statements of the finish route.\<close>

lemma finish_seed_of_run:
  "map_option r_seed (select_run (snd (finish d rid cd now now')) x)
     = map_option r_seed (select_run d x)"
proof -
  let ?f = "\<lambda>r. r\<lparr>r_status := ''FINISHED'', r_ended_at := Some now,
                 r_completion_details := (if cd = Some [] then None else cd)\<rparr>"
  let ?d1 = "update_run rid ?f d"
  have s1: "select_run ?d1 y = map_option (\<lambda>r. if r_id r = rid then ?f r else r) (select_run d y)" for y
    by (rule select_run_update_run) simp
  have seed1: "map_option r_seed (select_run ?d1 y) = map_option r_seed (select_run d y)" for y
    by (cases "select_run d y") (simp_all add: s1)
  show ?thesis
  proof (cases "select_run d rid")
    case None
    then have "select_run ?d1 rid = None" by (simp add: s1)
    then show ?thesis
      using seed1 [of x] by (simp add: finish_def Let_def insert_time_log_None)
  next
    case (Some run)
    then obtain run1 where r1: "select_run ?d1 rid = Some run1" by (simp add: s1)
    let ?d3 = "insert_or_ignore_solved (r_seed run1) now (append_time_log rid ''END'' now ?d1)"
    have "select_run ?d3 rid = Some run1" using r1 by simp
    from calculateStats_Inr [OF this, of now'] obtain st where
      st: "calculateStats ?d3 rid now' = Inr st" by blast
    have s3: "select_run (update_run rid (\<lambda>r. r\<lparr>r_duration := Some (duration_ms st)\<rparr>) ?d3) x
        = map_option (\<lambda>r. if r_id r = rid then r\<lparr>r_duration := Some (duration_ms st)\<rparr> else r)
            (select_run ?d3 x)"
      by (rule select_run_update_run) simp
    have "snd (finish d rid cd now now')
        = update_run rid (\<lambda>r. r\<lparr>r_duration := Some (duration_ms st)\<rparr>) ?d3"
      using r1 st by (simp add: finish_def Let_def insert_time_log_Some [OF r1])
    then show ?thesis
      using seed1 [of x] by (cases "select_run d x") (simp_all add: s3 s1)
  qed
qed

lemma finish_solved_seeds:
  "solved_seeds (snd (finish d rid cd now now'))
     = (case select_run d rid of
          None \<Rightarrow> solved_seeds d
        | Some run \<Rightarrow>
            if r_seed run \<in> seed ` set (solved_seeds d) then solved_seeds d
            else solved_seeds d @ [\<lparr>seed = r_seed run, solved_at = now\<rparr>])"
proof -
  let ?f = "\<lambda>r. r\<lparr>r_status := ''FINISHED'', r_ended_at := Some now,
                 r_completion_details := (if cd = Some [] then None else cd)\<rparr>"
  let ?d1 = "update_run rid ?f d"
  have s1: "select_run ?d1 rid = map_option (\<lambda>r. if r_id r = rid then ?f r else r) (select_run d rid)"
    by (rule select_run_update_run) simp
  show ?thesis
  proof (cases "select_run d rid")
    case None
    then have "select_run ?d1 rid = None" by (simp add: s1)
    then show ?thesis
      using None by (simp add: finish_def Let_def insert_time_log_None)
  next
    case (Some run)
    then obtain run1 where r1: "select_run ?d1 rid = Some run1" and sd: "r_seed run1 = r_seed run"
      by (auto simp add: s1)
    let ?d3 = "insert_or_ignore_solved (r_seed run1) now (append_time_log rid ''END'' now ?d1)"
    have "select_run ?d3 rid = Some run1" using r1 by simp
    from calculateStats_Inr [OF this, of now'] obtain st where
      st: "calculateStats ?d3 rid now' = Inr st" by blast
    have "snd (finish d rid cd now now')
        = update_run rid (\<lambda>r. r\<lparr>r_duration := Some (duration_ms st)\<rparr>) ?d3"
      using r1 st by (simp add: finish_def Let_def insert_time_log_Some [OF r1])
    then show ?thesis
      using Some sd by (simp add: insert_or_ignore_solved_def)
  qed
qed

lemma finish_step_seed_of_run:
  "map_option r_seed (select_run (finish_step d q) x) = map_option r_seed (select_run d x)"
  by (simp add: finish_step_def finish_seed_of_run)

lemma finish_all_seed_of_run:
  "map_option r_seed (select_run (finish_all d qs) x) = map_option r_seed (select_run d x)"
  unfolding finish_all_def
  by (induction qs arbitrary: d) (simp_all add: finish_step_seed_of_run)

lemma finish_step_solved_seeds_prefix:
  "\<exists>new. solved_seeds (finish_step d q) = solved_seeds d @ new"
  by (simp add: finish_step_def finish_solved_seeds split: option.split)

lemma finish_step_distinct:
  "distinct (map seed (solved_seeds d)) \<Longrightarrow> distinct (map seed (solved_seeds (finish_step d q)))"
  by (simp add: finish_step_def finish_solved_seeds split: option.split)

lemma finish_all_distinct:
  "distinct (map seed (solved_seeds d)) \<Longrightarrow> distinct (map seed (solved_seeds (finish_all d qs)))"
  unfolding finish_all_def
  by (induction qs arbitrary: d) (simp_all add: finish_step_distinct)

lemma finish_all_solved_seeds_prefix:
  "\<exists>new. solved_seeds (finish_all d qs) = solved_seeds d @ new"
  unfolding finish_all_def
proof (induction qs arbitrary: d)
  case Nil
  then show ?case by simp
next
  case (Cons q qs)
  obtain n1 where "solved_seeds (finish_step d q) = solved_seeds d @ n1"
    using finish_step_solved_seeds_prefix by blast
  moreover obtain n2 where
    "solved_seeds (foldl finish_step (finish_step d q) qs) = solved_seeds (finish_step d q) @ n2"
    using Cons.IH by blast
  ultimately show ?case by simp
qed

lemma filter_key_present:
  "distinct (map seed rows) \<Longrightarrow> s \<in> seed ` set rows \<Longrightarrow>
   \<exists>r. find (\<lambda>r. seed r = s) rows = Some r \<and> filter (\<lambda>r. seed r = s) rows = [r] \<and> seed r = s"
proof (induction rows)
  case Nil
  then show ?case by simp
next
  case (Cons a rows)
  show ?case
  proof (cases "seed a = s")
    case True
    from Cons.prems(1) have "seed a \<notin> seed ` set rows" by simp
    with True have "\<forall>x\<in>set rows. seed x \<noteq> s" by blast
    then have "filter (\<lambda>r. seed r = s) rows = []"
      by (simp add: filter_empty_conv)
    with True show ?thesis by simp
  next
    case False
    with Cons show ?thesis by auto
  qed
qed

lemma filter_key_absent:
  "s \<notin> seed ` set rows \<Longrightarrow>
   find (\<lambda>r. seed r = s) rows = None \<and> filter (\<lambda>r. seed r = s) rows = []"
  by (auto simp add: find_None_iff filter_empty_conv)

lemma finish_all_seed_already_solved:
  "s \<in> seed ` set (solved_seeds d) \<Longrightarrow>
   \<forall>q\<in>set qs. map_option r_seed (select_run d (f_run_id q)) = Some s \<Longrightarrow>
   solved_seeds (finish_all d qs) = solved_seeds d"
  unfolding finish_all_def
proof (induction qs arbitrary: d)
  case Nil
  then show ?case by simp
next
  case (Cons q qs)
  from Cons.prems(2) obtain run where run: "select_run d (f_run_id q) = Some run" "r_seed run = s"
    by auto
  with Cons.prems(1) have eq: "solved_seeds (finish_step d q) = solved_seeds d"
    by (simp add: finish_step_def finish_solved_seeds)
  have "\<forall>q'\<in>set qs. map_option r_seed (select_run (finish_step d q) (f_run_id q')) = Some s"
    using Cons.prems(2) by (simp add: finish_step_seed_of_run)
  with Cons.IH [of "finish_step d q"] Cons.prems(1) eq show ?case by simp
qed

text \<open>
  C6. Finishing inserts into \<open>solved_seeds\<close> only when the seed has no row yet. After
  any non-empty sequence of finish requests for runs that share the seed \<open>s\<close>, the
  table holds exactly one row for \<open>s\<close>; its timestamp is the one the table already had
  for \<open>s\<close>, or the time of the first of the requests when it had none. For every
  sequence of finish requests the seeds of the table stay distinct and the rows it had
  stay as they were.
\<close>

theorem seed_marked_solved_once:
  assumes pk: "distinct (map seed (solved_seeds d))"
    and same: "\<forall>q\<in>set qs. map_option r_seed (select_run d (f_run_id q)) = Some s"
    and ne: "qs \<noteq> []"
  shows "filter (\<lambda>r. seed r = s) (solved_seeds (finish_all d qs))
       = [\<lparr>seed = s,
           solved_at = (case find (\<lambda>r. seed r = s) (solved_seeds d) of
                          Some r \<Rightarrow> solved_at r
                        | None \<Rightarrow> f_now (hd qs))\<rparr>]
    \<and> distinct (map seed (solved_seeds (finish_all d qs')))
    \<and> (\<exists>new. solved_seeds (finish_all d qs') = solved_seeds d @ new)"
proof -
  from ne obtain q rest where qs: "qs = q # rest" by (cases qs) auto
  from same qs obtain run where run: "select_run d (f_run_id q) = Some run" "r_seed run = s"
    by auto
  let ?d1 = "finish_step d q"
  have d1: "solved_seeds ?d1
      = (if s \<in> seed ` set (solved_seeds d) then solved_seeds d
         else solved_seeds d @ [\<lparr>seed = s, solved_at = f_now q\<rparr>])"
    using run by (simp add: finish_step_def finish_solved_seeds)
  then have in1: "s \<in> seed ` set (solved_seeds ?d1)" by simp
  have "\<forall>q'\<in>set rest. map_option r_seed (select_run ?d1 (f_run_id q')) = Some s"
    using same qs by (simp add: finish_step_seed_of_run)
  from finish_all_seed_already_solved [OF in1 this]
  have all: "solved_seeds (finish_all d qs) = solved_seeds ?d1"
    by (simp add: qs finish_all_def)
  have one: "filter (\<lambda>r. seed r = s) (solved_seeds ?d1)
       = [\<lparr>seed = s,
           solved_at = (case find (\<lambda>r. seed r = s) (solved_seeds d) of
                          Some r \<Rightarrow> solved_at r
                        | None \<Rightarrow> f_now (hd qs))\<rparr>]"
  proof (cases "s \<in> seed ` set (solved_seeds d)")
    case True
    from filter_key_present [OF pk True] obtain r where
      r: "find (\<lambda>r. seed r = s) (solved_seeds d) = Some r"
        "filter (\<lambda>r. seed r = s) (solved_seeds d) = [r]" "seed r = s"
      by blast
    then show ?thesis using True by (simp add: d1)
  next
    case False
    from filter_key_absent [OF False] show ?thesis
      using False by (simp add: d1 qs)
  qed
  show ?thesis
    using one all finish_all_distinct [OF pk, of qs'] finish_all_solved_seeds_prefix [of d qs']
    by simp
qed

theorem seed_marked_solved_once_witness:
  "distinct (map seed (solved_seeds (sample_db [])))
   \<and> list_all (\<lambda>q. map_option r_seed (select_run (sample_db []) (f_run_id q)) = Some ''s1'')
       sample_finishes
   \<and> sample_finishes \<noteq> []
   \<and> filter (\<lambda>r. seed r = ''s1'') (solved_seeds (finish_all (sample_db []) sample_finishes))
       = [\<lparr>seed = ''s1'', solved_at = 100\<rparr>]"
proof -
  have pk: "distinct (map seed (solved_seeds (sample_db [])))"
    by (simp add: sample_db_def)
  have same: "\<forall>q\<in>set sample_finishes.
      map_option r_seed (select_run (sample_db []) (f_run_id q)) = Some ''s1''"
    by (simp add: sample_finishes_def select_run_def sample_db_def sample_run_def)
  have ne: "sample_finishes \<noteq> []"
    by (simp add: sample_finishes_def)
  have "find (\<lambda>r. seed r = ''s1'') (solved_seeds (sample_db [])) = None"
    by (simp add: sample_db_def)
  moreover have "f_now (hd sample_finishes) = 100"
    by (simp add: sample_finishes_def)
  ultimately have "filter (\<lambda>r. seed r = ''s1'') (solved_seeds (finish_all (sample_db []) sample_finishes))
       = [\<lparr>seed = ''s1'', solved_at = 100\<rparr>]"
    using seed_marked_solved_once [OF pk same ne] by simp
  then show ?thesis
    using pk same ne by (simp add: list_all_iff)
qed

subsection \<open>Ordering by timestamp\<close>

lemma insort_key_append_le:
  "\<forall>y\<in>set ys. f x \<le> f y \<Longrightarrow> insort_key f x (xs @ ys) = insort_key f x xs @ ys"
proof (induction xs)
  case Nil
  then show ?case by (cases ys) simp_all
next
  case (Cons a xs)
  then show ?case by simp
qed

lemma sort_key_append_le:
  "\<forall>x\<in>set xs. \<forall>y\<in>set ys. f x \<le> f y \<Longrightarrow>
   sort_key f (xs @ ys) = sort_key f xs @ sort_key f ys"
proof (induction xs)
  case Nil
  then show ?case by simp
next
  case (Cons a xs)
  then have "sort_key f (xs @ ys) = sort_key f xs @ sort_key f ys" by simp
  moreover have "\<forall>y\<in>set (sort_key f ys). f a \<le> f y"
    using Cons.prems by simp
  ultimately show ?case
    by (simp add: insort_key_append_le)
qed

lemma sort_key_Cons_le:
  assumes "\<forall>y\<in>set ys. f x \<le> f y"
  shows "sort_key f (x # ys) = x # sort_key f ys"
proof -
  have "\<forall>y\<in>set (sort_key f ys). f x \<le> f y" using assms by simp
  from insort_key_append_le [OF this, of "[]"] show ?thesis by simp
qed

subsection \<open>Finishing a run\<close>

lemma finish_time_logs:
  assumes run: "select_run d rid = Some run"
  shows "time_logs (snd (finish d rid cd now now'))
     = time_logs d @ [\<lparr>tl_run_id = rid, action = ''END'', timestamp = now\<rparr>]"
proof -
  let ?f = "\<lambda>r. r\<lparr>r_status := ''FINISHED'', r_ended_at := Some now,
                 r_completion_details := (if cd = Some [] then None else cd)\<rparr>"
  let ?d1 = "update_run rid ?f d"
  have s1: "select_run ?d1 rid = map_option (\<lambda>r. if r_id r = rid then ?f r else r) (select_run d rid)"
    by (rule select_run_update_run) simp
  from run obtain run1 where r1: "select_run ?d1 rid = Some run1" by (simp add: s1)
  let ?d3 = "insert_or_ignore_solved (r_seed run1) now (append_time_log rid ''END'' now ?d1)"
  have "select_run ?d3 rid = Some run1" using r1 by simp
  from calculateStats_Inr [OF this, of now'] obtain st where
    st: "calculateStats ?d3 rid now' = Inr st" by blast
  have "snd (finish d rid cd now now')
      = update_run rid (\<lambda>r. r\<lparr>r_duration := Some (duration_ms st)\<rparr>) ?d3"
    using r1 st by (simp add: finish_def Let_def insert_time_log_Some [OF r1])
  then show ?thesis
    by (simp add: append_time_log_def)
qed

text \<open>
  For a run id that no run has, the insertion of the END row is refused: the finish
  route answers 500 and the database is as it was.
\<close>

lemma finish_unknown_run:
  assumes "select_run d rid = None"
  shows "finish d rid cd now now' = (ServerError ''Failed to finish run'', d)"
proof -
  let ?f = "\<lambda>r. r\<lparr>r_status := ''FINISHED'', r_ended_at := Some now,
                 r_completion_details := (if cd = Some [] then None else cd)\<rparr>"
  have d1: "update_run rid ?f d = d"
    by (rule update_run_no_row [OF assms])
  show ?thesis
    using assms by (simp add: finish_def Let_def d1 insert_time_log_None)
qed

lemma finish_Ok:
  assumes run: "select_run d rid = Some run"
  shows "\<exists>st. fst (finish d rid cd now now') = Ok200 st
     \<and> duration_ms st =
         total_time (sort_key timestamp (filter (\<lambda>l. tl_run_id l = rid) (time_logs d)
             @ [\<lparr>tl_run_id = rid, action = ''END'', timestamp = now\<rparr>])) now'
     \<and> map_option r_duration (select_run (snd (finish d rid cd now now')) rid)
         = Some (Some (duration_ms st))"
proof -
  let ?f = "\<lambda>r. r\<lparr>r_status := ''FINISHED'', r_ended_at := Some now,
                 r_completion_details := (if cd = Some [] then None else cd)\<rparr>"
  let ?d1 = "update_run rid ?f d"
  have s1: "select_run ?d1 rid = map_option (\<lambda>r. if r_id r = rid then ?f r else r) (select_run d rid)"
    by (rule select_run_update_run) simp
  from run obtain run1 where r1: "select_run ?d1 rid = Some run1" by (simp add: s1)
  let ?d3 = "insert_or_ignore_solved (r_seed run1) now (append_time_log rid ''END'' now ?d1)"
  have r3: "select_run ?d3 rid = Some run1" using r1 by simp
  from calculateStats_Inr [OF this, of now'] obtain st where
    st: "calculateStats ?d3 rid now' = Inr st"
    and dur: "duration_ms st = total_time (select_time_logs ?d3 rid) now'" by blast
  have logs: "select_time_logs ?d3 rid
      = sort_key timestamp (filter (\<lambda>l. tl_run_id l = rid) (time_logs d)
             @ [\<lparr>tl_run_id = rid, action = ''END'', timestamp = now\<rparr>])"
    by (simp add: select_time_logs_def append_time_log_def)
  have fin: "finish d rid cd now now'
      = (Ok200 st, update_run rid (\<lambda>r. r\<lparr>r_duration := Some (duration_ms st)\<rparr>) ?d3)"
    using r1 st by (simp add: finish_def Let_def insert_time_log_Some [OF r1])
  let ?g = "\<lambda>r. r\<lparr>r_duration := Some (duration_ms st)\<rparr>"
  have "select_run (update_run rid ?g ?d3) rid
      = map_option (\<lambda>r. if r_id r = rid then ?g r else r) (select_run ?d3 rid)"
    by (rule select_run_update_run) simp
  also have "\<dots> = Some (?g run1)"
    unfolding r3 using select_run_id [OF r3] by simp
  finally have "map_option r_duration (select_run (update_run rid ?g ?d3) rid)
      = Some (Some (duration_ms st))"
    by simp
  then have "map_option r_duration (select_run (snd (finish d rid cd now now')) rid)
      = Some (Some (duration_ms st))"
    by (simp only: fin snd_conv)
  then show ?thesis
    using dur logs by (simp add: fin)
qed

lemma clock_step_END_off:
  "action e = ''END'' \<Longrightarrow> \<not> isRunning (clock_step c e)"
  by (simp add: clock_step_def)

text \<open>
  C7. Finishing a run a second time does not change its recorded duration. Let every
  row the run has at the first finish carry a timestamp up to the first finish time,
  let the second finish not be earlier than the first, and let the rows added for the
  run in between (if any) be no clock-on edges and not earlier than the first finish.
  Then both calls succeed, both report and store the same duration, and this duration
  is the total the clock shows when the first END row is replayed after the earlier
  rows: the second END row finds the clock off.
\<close>

theorem finish_twice_keeps_duration:
  assumes run: "select_run d rid = Some run"
    and past: "\<forall>l\<in>set (time_logs d). tl_run_id l = rid \<longrightarrow> timestamp l \<le> now1"
    and later: "now1 \<le> now2"
    and run': "select_run d' rid = Some run'"
    and between: "filter (\<lambda>l. tl_run_id l = rid) (time_logs d')
        = filter (\<lambda>l. tl_run_id l = rid) (time_logs (snd (finish d rid cd1 now1 n1))) @ extra"
    and extra: "\<forall>l\<in>set extra. \<not> clock_on_edge l \<and> now1 \<le> timestamp l"
  shows "\<exists>st1 st2. fst (finish d rid cd1 now1 n1) = Ok200 st1
      \<and> fst (finish d' rid cd2 now2 n2) = Ok200 st2
      \<and> duration_ms st2 = duration_ms st1
      \<and> map_option r_duration (select_run (snd (finish d rid cd1 now1 n1)) rid)
          = Some (Some (duration_ms st1))
      \<and> map_option r_duration (select_run (snd (finish d' rid cd2 now2 n2)) rid)
          = Some (Some (duration_ms st1))
      \<and> duration_ms st1
          = totalTimeMs (clock_step (replay (select_time_logs d rid))
              \<lparr>tl_run_id = rid, action = ''END'', timestamp = now1\<rparr>)"
proof -
  let ?old = "filter (\<lambda>l. tl_run_id l = rid) (time_logs d)"
  let ?E1 = "\<lparr>tl_run_id = rid, action = ''END'', timestamp = now1\<rparr>"
  let ?E2 = "\<lparr>tl_run_id = rid, action = ''END'', timestamp = now2\<rparr>"
  let ?c1 = "clock_step (replay (sort_key timestamp ?old)) ?E1"
  have old_le: "\<forall>x\<in>set ?old. timestamp x \<le> now1" using past by simp
  have off1: "\<not> isRunning ?c1" by (simp add: clock_step_END_off)
  \<comment> \<open>the first finish\<close>
  have sort1: "sort_key timestamp (?old @ [?E1]) = sort_key timestamp ?old @ [?E1]"
    using old_le by (simp add: sort_key_append_le)
  have tot1: "total_time (sort_key timestamp (?old @ [?E1])) n1 = totalTimeMs ?c1"
    using off1 by (simp add: sort1 total_time_def replay_snoc Let_def)
  from finish_Ok [OF run, of cd1 now1 n1] obtain st1 where
    st1: "fst (finish d rid cd1 now1 n1) = Ok200 st1"
      "duration_ms st1 = total_time (sort_key timestamp (?old @ [?E1])) n1"
      "map_option r_duration (select_run (snd (finish d rid cd1 now1 n1)) rid)
         = Some (Some (duration_ms st1))"
    by blast
  \<comment> \<open>the second finish\<close>
  have logs': "filter (\<lambda>l. tl_run_id l = rid) (time_logs d') = ?old @ ?E1 # extra"
    using between by (simp add: finish_time_logs [OF run])
  have tail_ge: "\<forall>y\<in>set (extra @ [?E2]). now1 \<le> timestamp y"
    using extra later by simp
  have cross: "\<forall>x\<in>set ?old. \<forall>y\<in>set (?E1 # (extra @ [?E2])). timestamp x \<le> timestamp y"
  proof (intro ballI)
    fix x y
    assume x: "x \<in> set ?old" and y: "y \<in> set (?E1 # (extra @ [?E2]))"
    from x old_le have "timestamp x \<le> now1" by blast
    moreover from y tail_ge have "now1 \<le> timestamp y" by auto
    ultimately show "timestamp x \<le> timestamp y" by simp
  qed
  have "sort_key timestamp (?old @ ?E1 # extra @ [?E2])
      = sort_key timestamp ?old @ sort_key timestamp (?E1 # (extra @ [?E2]))"
    by (rule sort_key_append_le [OF cross])
  also have "sort_key timestamp (?E1 # (extra @ [?E2]))
      = ?E1 # sort_key timestamp (extra @ [?E2])"
    using tail_ge by (intro sort_key_Cons_le) simp
  finally have sort2: "sort_key timestamp (?old @ ?E1 # extra @ [?E2])
      = sort_key timestamp ?old @ ?E1 # sort_key timestamp (extra @ [?E2])" .
  have no_on: "list_all (\<lambda>l. \<not> clock_on_edge l) (sort_key timestamp (extra @ [?E2]))"
    using extra by (simp add: list_all_iff clock_on_edge_def)
  have "replay (sort_key timestamp (?old @ ?E1 # extra @ [?E2]))
      = foldl clock_step ?c1 (sort_key timestamp (extra @ [?E2]))"
    by (simp add: sort2 replay_append)
  also have "\<dots> = ?c1"
    by (rule foldl_no_on_edge [OF off1 no_on])
  finally have tot2: "total_time (sort_key timestamp (?old @ ?E1 # extra @ [?E2])) n2
      = totalTimeMs ?c1"
    using off1 by (simp add: total_time_def Let_def)
  from finish_Ok [OF run', of cd2 now2 n2] obtain st2 where
    st2: "fst (finish d' rid cd2 now2 n2) = Ok200 st2"
      "duration_ms st2 = total_time (sort_key timestamp
          (filter (\<lambda>l. tl_run_id l = rid) (time_logs d') @ [?E2])) n2"
      "map_option r_duration (select_run (snd (finish d' rid cd2 now2 n2)) rid)
         = Some (Some (duration_ms st2))"
    by blast
  have d1: "duration_ms st1 = totalTimeMs ?c1" using st1(2) tot1 by simp
  have d2: "duration_ms st2 = totalTimeMs ?c1" using st2(2) tot2 by (simp add: logs')
  show ?thesis
    using st1(1,3) st2(1,3) d1 d2 by (simp add: select_time_logs_def)
qed

lemma update_state_time_logs:
  "valid_action act \<Longrightarrow> rid \<noteq> [] \<Longrightarrow> select_run d rid = Some run \<Longrightarrow>
   time_logs (snd (update_state d rid act now))
     = time_logs d @ [\<lparr>tl_run_id = rid, action = act, timestamp = now\<rparr>]"
  using update_state_accepted [of act rid d run now] by auto

lemma update_state_select_run:
  "select_run d x = Some r \<Longrightarrow> \<exists>r'. select_run (snd (update_state d rid act now)) x = Some r'"
proof -
  assume r: "select_run d x = Some r"
  have "select_run (update_run rid (\<lambda>r. r\<lparr>r_status := st\<rparr>) d) x
      = map_option (\<lambda>r. if r_id r = rid then r\<lparr>r_status := st\<rparr> else r) (select_run d x)" for st
    by (rule select_run_update_run) simp
  with r show ?thesis
    by (simp add: update_state_def insert_time_log_def Let_def split: option.split)
qed

lemma finish_select_run:
  "select_run d x = Some r \<Longrightarrow> \<exists>r'. select_run (snd (finish d rid cd now now')) x = Some r'"
  using finish_seed_of_run [of d rid cd now now' x] by (cases "select_run (snd (finish d rid cd now now')) x") simp_all

theorem finish_twice_keeps_duration_witness:
  "select_run (sample_db sample_logs) ''r1'' = Some (sample_run ''r1'' ''s1'')
   \<and> list_all (\<lambda>l. tl_run_id l = ''r1'' \<longrightarrow> timestamp l \<le> 4000) (time_logs (sample_db sample_logs))
   \<and> (4000 :: int) \<le> 5000
   \<and> (\<exists>run'. select_run sample_aborted ''r1'' = Some run')
   \<and> filter (\<lambda>l. tl_run_id l = ''r1'') (time_logs sample_aborted)
       = filter (\<lambda>l. tl_run_id l = ''r1'') (time_logs sample_finished) @ [log_row ''ABORT'' 4500]
   \<and> list_all (\<lambda>l. \<not> clock_on_edge l \<and> 4000 \<le> timestamp l) [log_row ''ABORT'' 4500]
   \<and> (\<exists>st1 st2. fst (finish (sample_db sample_logs) ''r1'' None 4000 4001) = Ok200 st1
        \<and> fst (finish sample_aborted ''r1'' None 5000 5001) = Ok200 st2
        \<and> duration_ms st1 = 3500 \<and> duration_ms st2 = 3500
        \<and> map_option r_duration
            (select_run (snd (finish sample_aborted ''r1'' None 5000 5001)) ''r1'') = Some (Some 3500))"
proof -
  let ?d = "sample_db sample_logs"
  have run: "select_run ?d ''r1'' = Some (sample_run ''r1'' ''s1'')"
    by (simp add: select_run_def sample_db_def sample_run_def)
  have past: "\<forall>l\<in>set (time_logs ?d). tl_run_id l = ''r1'' \<longrightarrow> timestamp l \<le> 4000"
    by (simp add: sample_db_def sample_logs_def log_row_def)
  have later: "(4000 :: int) \<le> 5000" by simp
  from finish_select_run [OF run] obtain r1 where fin: "select_run sample_finished ''r1'' = Some r1"
    unfolding sample_finished_def by blast
  from update_state_select_run [OF this] obtain run' where
    run': "select_run sample_aborted ''r1'' = Some run'"
    unfolding sample_aborted_def by blast
  have between: "filter (\<lambda>l. tl_run_id l = ''r1'') (time_logs sample_aborted)
       = filter (\<lambda>l. tl_run_id l = ''r1'')
           (time_logs (snd (finish ?d ''r1'' None 4000 4001))) @ [log_row ''ABORT'' 4500]"
  proof -
    have "valid_action ''ABORT''" by (simp add: valid_action_def)
    moreover have "''r1'' \<noteq> []" by simp
    ultimately have "time_logs sample_aborted
        = time_logs sample_finished
            @ [\<lparr>tl_run_id = ''r1'', action = ''ABORT'', timestamp = 4500\<rparr>]"
      unfolding sample_aborted_def using fin by (rule update_state_time_logs)
    then show ?thesis
      by (simp add: sample_finished_def log_row_def)
  qed
  have extra: "\<forall>l\<in>set [log_row ''ABORT'' 4500]. \<not> clock_on_edge l \<and> 4000 \<le> timestamp l"
    by (simp add: clock_on_edge_def log_row_def)
  have val: "totalTimeMs (clock_step (replay (select_time_logs ?d ''r1''))
      \<lparr>tl_run_id = ''r1'', action = ''END'', timestamp = 4000\<rparr>) = 3500"
    by (simp add: select_time_logs_def sample_db_def sample_logs_def log_row_def replay_def
        clock0_def clock_step_def)
  from finish_twice_keeps_duration [OF run past later run' between extra, where ?cd2.0 = None and ?n2.0 = 5001]
  obtain st1 st2 where
    "fst (finish ?d ''r1'' None 4000 4001) = Ok200 st1"
    "fst (finish sample_aborted ''r1'' None 5000 5001) = Ok200 st2"
    "duration_ms st2 = duration_ms st1"
    "map_option r_duration (select_run (snd (finish sample_aborted ''r1'' None 5000 5001)) ''r1'')
       = Some (Some (duration_ms st1))"
    "duration_ms st1 = 3500"
    unfolding val by blast
  then have "\<exists>st1 st2. fst (finish ?d ''r1'' None 4000 4001) = Ok200 st1
        \<and> fst (finish sample_aborted ''r1'' None 5000 5001) = Ok200 st2
        \<and> duration_ms st1 = 3500 \<and> duration_ms st2 = 3500
        \<and> map_option r_duration
            (select_run (snd (finish sample_aborted ''r1'' None 5000 5001)) ''r1'') = Some (Some 3500)"
    by simp
  moreover have "filter (\<lambda>l. tl_run_id l = ''r1'') (time_logs sample_aborted)
       = filter (\<lambda>l. tl_run_id l = ''r1'') (time_logs sample_finished) @ [log_row ''ABORT'' 4500]"
    using between by (simp add: sample_finished_def)
  ultimately show ?thesis
    using run past later run' extra by (simp add: list_all_iff)
qed

subsection \<open>The wait for OFFLINE\<close>

lemma getServerStatus_cases:
  "getServerStatus env tr = (Inl ApiError, tr @ [Call GetServerStatus Failed])
   \<or> (\<exists>s. getServerStatus env tr = (Inr s, tr @ [Call GetServerStatus (Status s)]))"
  by (simp add: getServerStatus_def)

lemma wait_offline_trace:
  "wait_offline env status attempts tr = (res, tr') \<Longrightarrow>
   \<exists>ext. tr' = tr @ ext
     \<and> (\<forall>ev\<in>set ext. ev = Sleep 3000 \<or> is_poll ev)
     \<and> length (filter is_poll ext) \<le> 100 - attempts
     \<and> length (filter is_sleep ext) = length (filter is_poll ext)
     \<and> (res = Inr 0 \<longrightarrow> status = 0 \<or> Call GetServerStatus (Status 0) \<in> set ext)
     \<and> (\<forall>s. Call GetServerStatus (Status s) \<in> set ext \<longrightarrow> s \<in> range (status_at env))"
proof (induction env status attempts tr arbitrary: res tr' rule: wait_offline.induct)
  case (1 env status attempts tr)
  show ?case
  proof (cases "status \<noteq> 0 \<and> attempts < 100")
    case False
    with "1.prems" have "res = Inr status" "tr' = tr"
      by (auto simp add: wait_offline.simps [of env status attempts tr])
    then show ?thesis by auto
  next
    case True
    from getServerStatus_cases [of env "tr @ [Sleep 3000]"]
    show ?thesis
    proof (elim disjE exE)
      assume g: "getServerStatus env (tr @ [Sleep 3000])
          = (Inl ApiError, (tr @ [Sleep 3000]) @ [Call GetServerStatus Failed])"
      with True "1.prems" have "res = Inl ApiError"
          "tr' = tr @ [Sleep 3000, Call GetServerStatus Failed]"
        by (auto simp add: wait_offline.simps [of env status attempts tr])
      with True show ?thesis by auto
    next
      fix s
      assume g: "getServerStatus env (tr @ [Sleep 3000])
          = (Inr s, (tr @ [Sleep 3000]) @ [Call GetServerStatus (Status s)])"
      let ?tr1 = "(tr @ [Sleep 3000]) @ [Call GetServerStatus (Status s)]"
      from True g "1.prems" have rec: "wait_offline env s (attempts + 1) ?tr1 = (res, tr')"
        by (simp add: wait_offline.simps [of env status attempts tr])
      from "1.IH" [OF True g [symmetric] refl rec]
      obtain ext where ext: "tr' = ?tr1 @ ext"
        "\<forall>ev\<in>set ext. ev = Sleep 3000 \<or> is_poll ev"
        "length (filter is_poll ext) \<le> 100 - (attempts + 1)"
        "length (filter is_sleep ext) = length (filter is_poll ext)"
        "res = Inr 0 \<longrightarrow> s = 0 \<or> Call GetServerStatus (Status 0) \<in> set ext"
        "\<forall>s. Call GetServerStatus (Status s) \<in> set ext \<longrightarrow> s \<in> range (status_at env)"
        by blast
      have srange: "s \<in> range (status_at env)"
        using g by (auto simp add: getServerStatus_def split: if_splits)
      let ?ext = "[Sleep 3000, Call GetServerStatus (Status s)] @ ext"
      have "tr' = tr @ ?ext" using ext(1) by simp
      moreover have "\<forall>ev\<in>set ?ext. ev = Sleep 3000 \<or> is_poll ev" using ext(2) by simp
      moreover have "length (filter is_poll ?ext) \<le> 100 - attempts"
        using ext(3) True by simp arith
      moreover have "length (filter is_sleep ?ext) = length (filter is_poll ?ext)"
        using ext(4) by simp
      moreover have "res = Inr 0 \<longrightarrow> status = 0 \<or> Call GetServerStatus (Status 0) \<in> set ?ext"
        using ext(5) by auto
      moreover have "\<forall>s'. Call GetServerStatus (Status s') \<in> set ?ext \<longrightarrow> s' \<in> range (status_at env)"
        using ext(6) srange by auto
      ultimately show ?thesis by blast
    qed
  qed
qed

lemma is_poll_not_other:
  "is_poll ev \<Longrightarrow> \<not> is_delete ev \<and> \<not> is_start ev \<and> \<not> is_file_access ev \<and> \<not> is_sleep ev
     \<and> \<not> is_failed_file_access ev"
  by (cases ev rule: is_poll.cases) simp_all

lemma stop_and_wait_trace:
  assumes "stop_and_wait env = (res, tr)"
  shows "length (filter is_poll tr) \<le> 101
     \<and> length (filter is_sleep tr) = length (filter is_poll tr) - 1
     \<and> (\<forall>ev\<in>set tr. is_sleep ev \<longrightarrow> ev = Sleep 3000)
     \<and> (\<forall>ev\<in>set tr. \<not> is_delete ev \<and> \<not> is_start ev \<and> \<not> is_file_access ev
            \<and> \<not> is_failed_file_access ev)
     \<and> (res = Inr 0 \<longrightarrow> offline_seen tr)
     \<and> (\<forall>s. Call GetServerStatus (Status s) \<in> set tr \<longrightarrow> s \<in> range (status_at env))"
proof (cases "fails env 0")
  case True
  with assms have "tr = [Call StopServer Failed]" "res = Inl ApiError"
    by (auto simp add: stop_and_wait_def stopServer_def call_def)
  then show ?thesis by simp
next
  case stop: False
  let ?tr0 = "[Call StopServer Replied]"
  from getServerStatus_cases [of env ?tr0] show ?thesis
  proof (elim disjE exE)
    assume "getServerStatus env ?tr0 = (Inl ApiError, ?tr0 @ [Call GetServerStatus Failed])"
    with stop assms have "tr = [Call StopServer Replied, Call GetServerStatus Failed]"
        "res = Inl ApiError"
      by (auto simp add: stop_and_wait_def stopServer_def call_def)
    then show ?thesis by simp
  next
    fix s
    assume g: "getServerStatus env ?tr0 = (Inr s, ?tr0 @ [Call GetServerStatus (Status s)])"
    let ?tr1 = "?tr0 @ [Call GetServerStatus (Status s)]"
    from stop assms g have w: "wait_offline env s 0 ?tr1 = (res, tr)"
      by (simp add: stop_and_wait_def stopServer_def call_def)
    have srange: "s \<in> range (status_at env)"
      using g by (auto simp add: getServerStatus_def split: if_splits)
    from wait_offline_trace [OF w] obtain ext where ext: "tr = ?tr1 @ ext"
      "\<forall>ev\<in>set ext. ev = Sleep 3000 \<or> is_poll ev"
      "length (filter is_poll ext) \<le> 100 - 0"
      "length (filter is_sleep ext) = length (filter is_poll ext)"
      "res = Inr 0 \<longrightarrow> s = 0 \<or> Call GetServerStatus (Status 0) \<in> set ext"
      "\<forall>s. Call GetServerStatus (Status s) \<in> set ext \<longrightarrow> s \<in> range (status_at env)"
      by blast
    have other: "\<forall>ev\<in>set ext. \<not> is_delete ev \<and> \<not> is_start ev \<and> \<not> is_file_access ev
        \<and> \<not> is_failed_file_access ev"
      using ext(2) is_poll_not_other by auto
    have sl: "\<forall>ev\<in>set ext. is_sleep ev \<longrightarrow> ev = Sleep 3000"
      using ext(2) is_poll_not_other by auto
    show ?thesis
      using ext(3,4,5,6) other sl srange by (auto simp add: ext(1) offline_seen_def)
  qed
qed

lemma delete_world_trace:
  "\<exists>dels. snd (delete_world env tr) = tr @ dels \<and> (\<forall>ev\<in>set dels. is_delete ev)"
  by (simp add: delete_world_def deleteFile_def call_def)

lemma reset_task_cases:
  "\<exists>res tr. stop_and_wait env = (res, tr)
     \<and> ((res \<noteq> Inr 0 \<and> reset_task env = tr)
        \<or> (res = Inr 0
            \<and> (\<exists>dels out. reset_task env = tr @ dels @ [Call StartServer out]
                   \<and> (\<forall>ev\<in>set dels. is_delete ev))))"
proof -
  obtain res tr where sw: "stop_and_wait env = (res, tr)" by (cases "stop_and_wait env")
  show ?thesis
  proof (cases "res = Inr 0")
    case True
    with sw have "reset_task env = snd (startServer env (snd (delete_world env tr)))"
      by (auto simp add: reset_task_def stop_and_wait_def split: prod.splits sum.splits)
    moreover obtain dels where "snd (delete_world env tr) = tr @ dels" "\<forall>ev\<in>set dels. is_delete ev"
      using delete_world_trace by blast
    ultimately have "\<exists>out. reset_task env = tr @ dels @ [Call StartServer out]"
      by (simp add: startServer_def call_def)
    with True sw \<open>\<forall>ev\<in>set dels. is_delete ev\<close> show ?thesis by blast
  next
    case False
    with sw have "reset_task env = tr"
      by (auto simp add: reset_task_def stop_and_wait_def split: prod.splits sum.splits)
    with False sw show ?thesis by blast
  qed
qed

lemma restart_task_no_seed: "restart_task env [] = [Call RestartServer (if fails env 0 then Failed else Replied)]"
  by (simp add: restart_task_def restartServer_def call_def)

lemma stop_and_wait_then:
  "(case stopServer env [] of
      (Inl e, tr) \<Rightarrow> tr
    | (Inr u, tr) \<Rightarrow>
        (case getServerStatus env tr of
           (Inl e, tr) \<Rightarrow> tr
         | (Inr status, tr) \<Rightarrow>
             (case wait_offline env status 0 tr of
                (Inl e, tr) \<Rightarrow> tr
              | (Inr status, tr) \<Rightarrow> k status tr)))
   = (case stop_and_wait env of (Inl e, tr) \<Rightarrow> tr | (Inr status, tr) \<Rightarrow> k status tr)"
  by (simp add: stop_and_wait_def split: prod.split sum.split)

lemma restart_task_cases:
  assumes "sd \<noteq> []"
  shows "\<exists>res tr. stop_and_wait env = (res, tr)
     \<and> ((res \<noteq> Inr 0 \<and> restart_task env sd = tr)
        \<or> (res = Inr 0
            \<and> restart_task env sd = tr @ [Call (GetFileContent ''server.properties'') Failed])
        \<or> (res = Inr 0
            \<and> (\<exists>c. restart_task env sd
                  = tr @ [Call (GetFileContent ''server.properties'') (Content c),
                          Call (UploadFile ''server.properties'' (rewrite_seed c sd)) Failed]))
        \<or> (res = Inr 0
            \<and> (\<exists>c rest. restart_task env sd
                  = tr @ [Call (GetFileContent ''server.properties'') (Content c),
                          Call (UploadFile ''server.properties'' (rewrite_seed c sd)) Replied] @ rest
                  \<and> (\<forall>ev\<in>set rest. is_delete ev \<or> is_start ev))))"
proof -
  obtain res tr where sw: "stop_and_wait env = (res, tr)" by (cases "stop_and_wait env")
  show ?thesis
  proof (cases "res = Inr 0")
    case False
    with sw assms have "restart_task env sd = tr"
      by (cases res) (simp_all add: restart_task_def stop_and_wait_then)
    with False sw show ?thesis by blast
  next
    case True
    let ?p = "''server.properties''"
    let ?after = "\<lambda>tr.
      (case getFileContent env ?p tr of
         (Inl e, tr) \<Rightarrow> tr
       | (Inr propsContent, tr) \<Rightarrow>
           (case uploadFile env ?p (rewrite_seed propsContent sd) tr of
              (Inl e, tr) \<Rightarrow> tr
            | (Inr _, tr) \<Rightarrow>
                (case delete_world env tr of
                   (Inl e, tr) \<Rightarrow> tr
                 | (Inr _, tr) \<Rightarrow> snd (startServer env tr))))"
    from True sw assms have T: "restart_task env sd = ?after tr"
      by (simp add: restart_task_def stop_and_wait_then)
    show ?thesis
    proof (cases "fails env (length tr)")
      case True
      then have "restart_task env sd = tr @ [Call (GetFileContent ?p) Failed]"
        unfolding T by (simp add: getFileContent_def)
      with sw \<open>res = Inr 0\<close> show ?thesis by blast
    next
      case fetch: False
      let ?c = "content_at env (length tr)"
      let ?tr1 = "tr @ [Call (GetFileContent ?p) (Content ?c)]"
      show ?thesis
      proof (cases "fails env (length ?tr1)")
        case True
        with fetch have "restart_task env sd = tr @ [Call (GetFileContent ?p) (Content ?c),
            Call (UploadFile ?p (rewrite_seed ?c sd)) Failed]"
          unfolding T by (simp add: getFileContent_def uploadFile_def call_def)
        with sw \<open>res = Inr 0\<close> show ?thesis by blast
      next
        case upload: False
        let ?tr2 = "?tr1 @ [Call (UploadFile ?p (rewrite_seed ?c sd)) Replied]"
        from fetch upload have A: "?after tr =
            (case delete_world env ?tr2 of
               (Inl e, tr) \<Rightarrow> tr
             | (Inr _, tr) \<Rightarrow> snd (startServer env tr))"
          by (simp add: getFileContent_def uploadFile_def call_def)
        obtain dels where dels: "snd (delete_world env ?tr2) = ?tr2 @ dels"
            "\<forall>ev\<in>set dels. is_delete ev"
          using delete_world_trace by blast
        have "\<exists>rest. ?after tr = ?tr2 @ rest \<and> (\<forall>ev\<in>set rest. is_delete ev \<or> is_start ev)"
        proof (cases "delete_world env ?tr2")
          case (Pair r tr3)
          with dels have tr3: "tr3 = ?tr2 @ dels" by simp
          show ?thesis
          proof (cases r)
            case (Inl e)
            with Pair A tr3 dels(2) show ?thesis by auto
          next
            case (Inr u)
            with Pair A have "?after tr = snd (startServer env tr3)" by simp
            then have "\<exists>out. ?after tr = ?tr2 @ (dels @ [Call StartServer out])"
              by (simp add: tr3 startServer_def call_def)
            then obtain out where "?after tr = ?tr2 @ (dels @ [Call StartServer out])" by blast
            moreover have "\<forall>ev\<in>set (dels @ [Call StartServer out]). is_delete ev \<or> is_start ev"
              using dels(2) by simp
            ultimately show ?thesis by blast
          qed
        qed
        then obtain rest where rest: "?after tr = ?tr2 @ rest"
            and kinds: "\<forall>ev\<in>set rest. is_delete ev \<or> is_start ev"
          by blast
        have "restart_task env sd
            = tr @ [Call (GetFileContent ?p) (Content ?c),
                    Call (UploadFile ?p (rewrite_seed ?c sd)) Replied] @ rest"
          unfolding T rest by simp
        with sw \<open>res = Inr 0\<close> kinds show ?thesis by blast
      qed
    qed
  qed
qed

subsection \<open>The shape of a task's trace\<close>

lemma is_delete_not_other:
  "is_delete ev \<Longrightarrow> \<not> is_poll ev \<and> \<not> is_sleep ev \<and> \<not> is_start ev \<and> \<not> is_failed_file_access ev"
  by (cases ev rule: is_delete.cases) simp_all

lemma is_start_not_other:
  "is_start ev \<Longrightarrow> \<not> is_poll ev \<and> \<not> is_sleep ev \<and> \<not> is_delete ev \<and> \<not> is_failed_file_access ev"
  by (cases ev rule: is_start.cases) simp_all

lemma task_shape:
  assumes "T = reset_task env \<or> T = restart_task env sd"
  shows "(\<exists>out. T = [Call RestartServer out])
     \<or> (\<exists>res tr suffix. stop_and_wait env = (res, tr) \<and> T = tr @ suffix
           \<and> (\<forall>ev\<in>set suffix. \<not> is_poll ev \<and> \<not> is_sleep ev)
           \<and> (res \<noteq> Inr 0 \<longrightarrow> suffix = []))"
  using assms
proof
  assume T: "T = reset_task env"
  from reset_task_cases [of env] obtain res tr where sw: "stop_and_wait env = (res, tr)"
    and c: "(res \<noteq> Inr 0 \<and> reset_task env = tr)
        \<or> (res = Inr 0
            \<and> (\<exists>dels out. reset_task env = tr @ dels @ [Call StartServer out]
                   \<and> (\<forall>ev\<in>set dels. is_delete ev)))"
    by blast
  from c show ?thesis
  proof
    assume "res \<noteq> Inr 0 \<and> reset_task env = tr"
    then have "T = tr @ []" using T by simp
    with sw show ?thesis by fastforce
  next
    assume "res = Inr 0
            \<and> (\<exists>dels out. reset_task env = tr @ dels @ [Call StartServer out]
                   \<and> (\<forall>ev\<in>set dels. is_delete ev))"
    then obtain dels out where r: "res = Inr 0" "T = tr @ (dels @ [Call StartServer out])"
      "\<forall>ev\<in>set dels. is_delete ev"
      using T by auto
    have "\<forall>ev\<in>set (dels @ [Call StartServer out]). \<not> is_poll ev \<and> \<not> is_sleep ev"
      using r(3) is_delete_not_other by auto
    with sw r(1,2) show ?thesis by blast
  qed
next
  assume T: "T = restart_task env sd"
  show ?thesis
  proof (cases "sd = []")
    case True
    with T show ?thesis by (simp add: restart_task_no_seed)
  next
    case False
    let ?p = "''server.properties''"
    from restart_task_cases [OF False, of env] obtain res tr where
      sw: "stop_and_wait env = (res, tr)"
      and c: "(res \<noteq> Inr 0 \<and> restart_task env sd = tr)
        \<or> (res = Inr 0 \<and> restart_task env sd = tr @ [Call (GetFileContent ?p) Failed])
        \<or> (res = Inr 0
            \<and> (\<exists>c. restart_task env sd
                  = tr @ [Call (GetFileContent ?p) (Content c),
                          Call (UploadFile ?p (rewrite_seed c sd)) Failed]))
        \<or> (res = Inr 0
            \<and> (\<exists>c rest. restart_task env sd
                  = tr @ [Call (GetFileContent ?p) (Content c),
                          Call (UploadFile ?p (rewrite_seed c sd)) Replied] @ rest
                  \<and> (\<forall>ev\<in>set rest. is_delete ev \<or> is_start ev)))"
      by blast
    have "\<exists>suffix. T = tr @ suffix \<and> (\<forall>ev\<in>set suffix. \<not> is_poll ev \<and> \<not> is_sleep ev)
        \<and> (res \<noteq> Inr 0 \<longrightarrow> suffix = [])"
      using c
    proof (elim disjE conjE exE)
      assume "res \<noteq> Inr 0" "restart_task env sd = tr"
      then have "T = tr @ []" using T by simp
      then show ?thesis by fastforce
    next
      assume "res = Inr 0" "restart_task env sd = tr @ [Call (GetFileContent ?p) Failed]"
      then show ?thesis using T by simp
    next
      fix c
      assume "res = Inr 0" "restart_task env sd
          = tr @ [Call (GetFileContent ?p) (Content c),
                  Call (UploadFile ?p (rewrite_seed c sd)) Failed]"
      then show ?thesis using T by simp
    next
      fix c rest
      assume r: "res = Inr 0" "restart_task env sd
          = tr @ [Call (GetFileContent ?p) (Content c),
                  Call (UploadFile ?p (rewrite_seed c sd)) Replied] @ rest"
        "\<forall>ev\<in>set rest. is_delete ev \<or> is_start ev"
      have "\<forall>ev\<in>set rest. \<not> is_poll ev \<and> \<not> is_sleep ev"
        using r(3) is_delete_not_other is_start_not_other by blast
      then show ?thesis using r(1,2) T by simp
    qed
    with sw show ?thesis by blast
  qed
qed

lemma wait_offline_exhausts:
  "\<forall>n. \<not> fails env n \<Longrightarrow> \<forall>n. status_at env n \<noteq> 0 \<Longrightarrow> status \<noteq> 0 \<Longrightarrow> attempts \<le> 100 \<Longrightarrow>
   \<exists>ext s. wait_offline env status attempts tr = (Inr s, tr @ ext) \<and> s \<noteq> 0
     \<and> length (filter is_poll ext) = 100 - attempts"
proof (induction env status attempts tr rule: wait_offline.induct)
  case (1 env status attempts tr)
  show ?case
  proof (cases "attempts < 100")
    case False
    then have "wait_offline env status attempts tr = (Inr status, tr @ [])"
      by (simp add: wait_offline.simps [of env status attempts tr])
    moreover have "length (filter is_poll []) = 100 - attempts"
      using False by simp
    ultimately show ?thesis using "1.prems"(3) by blast
  next
    case True
    let ?s = "status_at env (length (tr @ [Sleep 3000]))"
    let ?tr1 = "(tr @ [Sleep 3000]) @ [Call GetServerStatus (Status ?s)]"
    have g: "getServerStatus env (tr @ [Sleep 3000]) = (Inr ?s, ?tr1)"
      using "1.prems"(1) by (simp add: getServerStatus_def)
    have c: "status \<noteq> 0 \<and> attempts < 100" using True "1.prems"(3) by simp
    have s: "?s \<noteq> 0" using "1.prems"(2) by blast
    have a: "attempts + 1 \<le> 100" using True by simp
    from "1.IH" [OF c g [symmetric] refl "1.prems"(1,2) s a]
    obtain ext s' where r: "wait_offline env ?s (attempts + 1) ?tr1 = (Inr s', ?tr1 @ ext)"
      "s' \<noteq> 0" "length (filter is_poll ext) = 100 - (attempts + 1)"
      by blast
    have "wait_offline env status attempts tr
        = (Inr s', tr @ ([Sleep 3000, Call GetServerStatus (Status ?s)] @ ext))"
      using c g r(1) by (simp add: wait_offline.simps [of env status attempts tr])
    moreover have "length (filter is_poll ([Sleep 3000, Call GetServerStatus (Status ?s)] @ ext))
        = 100 - attempts"
      using r(3) True by simp
    ultimately show ?thesis using r(2) by blast
  qed
qed

lemma reset_task_never_offline_polls:
  "length (filter is_poll (reset_task never_offline)) = 101"
proof -
  let ?tr = "[Call StopServer Replied, Call GetServerStatus (Status 1)]"
  have f: "\<forall>n. \<not> fails never_offline n" and s: "\<forall>n. status_at never_offline n \<noteq> 0"
    by (simp_all add: never_offline_def)
  from wait_offline_exhausts [OF f s, of 1 0 ?tr]
  obtain ext s' where w: "wait_offline never_offline 1 0 ?tr = (Inr s', ?tr @ ext)" "s' \<noteq> 0"
      "length (filter is_poll ext) = 100"
    by auto
  have "stopServer never_offline [] = (Inr (), [Call StopServer Replied])"
    by (simp add: stopServer_def call_def never_offline_def)
  moreover have "getServerStatus never_offline [Call StopServer Replied] = (Inr 1, ?tr)"
    by (simp add: getServerStatus_def never_offline_def)
  ultimately have "reset_task never_offline = ?tr @ ext"
    using w(1,2) by (simp add: reset_task_def)
  then show ?thesis using w(3) by simp
qed

text \<open>
  C8. The background task of the reset route and the one of the restart route ask for
  the server status at most 101 times (once after the stop, then at most 100 times in
  the loop), sleep 3000 ms before each request of the loop and nowhere else, and issue
  no deletion, no start and no access to the properties file unless a status request
  was answered with OFFLINE (code 0).
\<close>

theorem offline_wait_bounded_and_required:
  assumes "T = reset_task env \<or> T = restart_task env sd"
  shows "length (filter is_poll T) \<le> 101
     \<and> length (filter is_sleep T) = length (filter is_poll T) - 1
     \<and> (\<forall>ev\<in>set T. is_sleep ev \<longrightarrow> ev = Sleep 3000)
     \<and> (\<not> offline_seen T \<longrightarrow>
          \<not> list_ex is_delete T \<and> \<not> list_ex is_start T \<and> \<not> list_ex is_file_access T)"
  using task_shape [OF assms]
proof (elim disjE exE conjE)
  fix out
  assume "T = [Call RestartServer out]"
  then show ?thesis by simp
next
  fix res tr suffix
  assume sw: "stop_and_wait env = (res, tr)" and T: "T = tr @ suffix"
    and suf: "\<forall>ev\<in>set suffix. \<not> is_poll ev \<and> \<not> is_sleep ev"
    and ne: "res \<noteq> Inr 0 \<longrightarrow> suffix = []"
  note tr = stop_and_wait_trace [OF sw]
  have p: "filter is_poll T = filter is_poll tr" "filter is_sleep T = filter is_sleep tr"
    using suf by (simp_all add: T)
  have a: "length (filter is_poll T) \<le> 101"
    and b: "length (filter is_sleep T) = length (filter is_poll T) - 1"
    using tr by (simp_all add: p)
  have c: "\<forall>ev\<in>set T. is_sleep ev \<longrightarrow> ev = Sleep 3000"
    using tr suf by (auto simp add: T)
  have d: "\<not> list_ex is_delete T \<and> \<not> list_ex is_start T \<and> \<not> list_ex is_file_access T"
    if "\<not> offline_seen T"
  proof -
    from that have "\<not> offline_seen tr" by (simp add: T offline_seen_def)
    with tr have "res \<noteq> Inr 0" by blast
    with ne have "T = tr" by (simp add: T)
    with tr show ?thesis by (simp add: list_ex_iff)
  qed
  show ?thesis using a b c d by blast
qed

lemma offline_never_seen:
  assumes "\<forall>n. status_at env n \<noteq> 0" and "T = reset_task env \<or> T = restart_task env sd"
  shows "\<not> offline_seen T"
  using task_shape [OF assms(2)]
proof (elim disjE exE conjE)
  fix out
  assume "T = [Call RestartServer out]"
  then show ?thesis by (simp add: offline_seen_def)
next
  fix res tr suffix
  assume sw: "stop_and_wait env = (res, tr)" and T: "T = tr @ suffix"
    and suf: "\<forall>ev\<in>set suffix. \<not> is_poll ev \<and> \<not> is_sleep ev"
  note tr = stop_and_wait_trace [OF sw]
  have "Call GetServerStatus (Status 0) \<notin> set suffix"
    using suf by auto
  moreover have "Call GetServerStatus (Status 0) \<notin> set tr"
  proof
    assume "Call GetServerStatus (Status 0) \<in> set tr"
    with tr have "0 \<in> range (status_at env)" by blast
    with assms(1) show False by auto
  qed
  ultimately show ?thesis by (simp add: T offline_seen_def)
qed

theorem offline_wait_bounded_and_required_witness:
  "(reset_task never_offline = reset_task never_offline
      \<or> reset_task never_offline = restart_task never_offline ''42'')
   \<and> \<not> offline_seen (reset_task never_offline)
   \<and> length (filter is_poll (reset_task never_offline)) = 101
   \<and> length (filter is_sleep (reset_task never_offline)) = 100
   \<and> \<not> list_ex is_delete (reset_task never_offline)
   \<and> \<not> list_ex is_start (reset_task never_offline)"
proof -
  have h: "reset_task never_offline = reset_task never_offline
      \<or> reset_task never_offline = restart_task never_offline ''42''" by simp
  have "\<forall>n. status_at never_offline n \<noteq> 0" by (simp add: never_offline_def)
  from offline_never_seen [OF this h] have n: "\<not> offline_seen (reset_task never_offline)" .
  from offline_wait_bounded_and_required [OF h] n reset_task_never_offline_polls
  show ?thesis by simp
qed

subsection \<open>The reseed task\<close>

lemma rewrite_seed_replaces:
  "rewrite_seed (''a=1'' @ [CHR 0x0A] @ ''level-seed=old'' @ [CHR 0x0A] @ ''b=2'') ''42''
     = ''a=1'' @ [CHR 0x0A] @ ''level-seed=42'' @ [CHR 0x0A] @ ''b=2''"
  by (simp add: rewrite_seed_def startsWith_def)

lemma rewrite_seed_appends:
  "rewrite_seed (''a=1'' @ [CHR 0x0A] @ ''b=2'') ''42''
     = ''a=1'' @ [CHR 0x0A] @ ''b=2'' @ [CHR 0x0A] @ ''level-seed=42''"
  by (simp add: rewrite_seed_def startsWith_def)

text \<open>
  C9. In the task of the restart route, when the request that fetches the properties
  file or the one that writes it back fails, the task ends there: the failed request is
  the last event of the trace, and no deletion and no start is issued. (In the model
  the rewriting of the text cannot fail.)
\<close>

theorem seed_file_failure_aborts_reseed:
  assumes "list_ex is_failed_file_access (restart_task env sd)"
  shows "\<not> list_ex is_delete (restart_task env sd)
     \<and> \<not> list_ex is_start (restart_task env sd)
     \<and> restart_task env sd \<noteq> []
     \<and> is_failed_file_access (last (restart_task env sd))"
proof (cases "sd = []")
  case True
  with assms show ?thesis by (simp add: restart_task_no_seed)
next
  case False
  let ?p = "''server.properties''"
  let ?T = "restart_task env sd"
  from restart_task_cases [OF False, of env] obtain res tr where
    sw: "stop_and_wait env = (res, tr)"
    and c: "(res \<noteq> Inr 0 \<and> ?T = tr)
      \<or> (res = Inr 0 \<and> ?T = tr @ [Call (GetFileContent ?p) Failed])
      \<or> (res = Inr 0
          \<and> (\<exists>c. ?T = tr @ [Call (GetFileContent ?p) (Content c),
                        Call (UploadFile ?p (rewrite_seed c sd)) Failed]))
      \<or> (res = Inr 0
          \<and> (\<exists>c rest. ?T = tr @ [Call (GetFileContent ?p) (Content c),
                        Call (UploadFile ?p (rewrite_seed c sd)) Replied] @ rest
                \<and> (\<forall>ev\<in>set rest. is_delete ev \<or> is_start ev)))"
    by blast
  from stop_and_wait_trace [OF sw]
  have tr: "\<forall>ev\<in>set tr. \<not> is_delete ev \<and> \<not> is_start ev \<and> \<not> is_failed_file_access ev"
    by blast
  from c show ?thesis
  proof (elim disjE conjE exE)
    assume "?T = tr"
    with assms tr show ?thesis by (simp add: list_ex_iff)
  next
    assume "?T = tr @ [Call (GetFileContent ?p) Failed]"
    with tr show ?thesis by (simp add: list_ex_iff)
  next
    fix c
    assume "?T = tr @ [Call (GetFileContent ?p) (Content c),
                        Call (UploadFile ?p (rewrite_seed c sd)) Failed]"
    with tr show ?thesis by (simp add: list_ex_iff)
  next
    fix c rest
    assume T: "?T = tr @ [Call (GetFileContent ?p) (Content c),
                        Call (UploadFile ?p (rewrite_seed c sd)) Replied] @ rest"
      and rest: "\<forall>ev\<in>set rest. is_delete ev \<or> is_start ev"
    have "\<forall>ev\<in>set rest. \<not> is_failed_file_access ev"
      using rest is_delete_not_other is_start_not_other by blast
    with tr have "\<not> list_ex is_failed_file_access ?T"
      by (auto simp add: T list_ex_iff)
    with assms show ?thesis by simp
  qed
qed

lemma restart_task_fetch_fails:
  "restart_task fetch_fails ''42''
     = [Call StopServer Replied, Call GetServerStatus (Status 0),
        Call (GetFileContent ''server.properties'') Failed]"
  by (simp add: restart_task_def fetch_fails_def stopServer_def call_def getServerStatus_def
      wait_offline.simps getFileContent_def)

theorem seed_file_failure_aborts_reseed_witness:
  "list_ex is_failed_file_access (restart_task fetch_fails ''42'')
   \<and> \<not> list_ex is_delete (restart_task fetch_fails ''42'')
   \<and> \<not> list_ex is_start (restart_task fetch_fails ''42'')
   \<and> last (restart_task fetch_fails ''42'') = Call (GetFileContent ''server.properties'') Failed"
proof -
  have h: "list_ex is_failed_file_access (restart_task fetch_fails ''42'')"
    by (simp add: restart_task_fetch_fails)
  have l: "last (restart_task fetch_fails ''42'') = Call (GetFileContent ''server.properties'') Failed"
    by (simp add: restart_task_fetch_fails)
  from seed_file_failure_aborts_reseed [OF h] h l show ?thesis by blast
qed

end
